theory Spec2Isabelle
  imports Complex_Main
begin

section \<open>JavaScript values\<close>

text \<open>
  The payloads that Socket.IO hands to the handlers of \<^verbatim>\<open>server/server.js\<close> are
  parsed JSON: a number is a finite number (JSON has no NaN and no infinity), so a number
  is the real it denotes, and comparisons are exact. A payload is any JSON value, or
  undefined when the client sent none.
\<close>

datatype jsval =
    JUndefined
  | JNull
  | JBool bool
  | JNum real
  | JStr string
  | JArr "jsval list"
  | JObj "(string \<times> jsval) list"

type_synonym payload = "(string \<times> jsval) list"

text \<open>\<^verbatim>\<open>data.k\<close> on an object payload: a missing property reads as undefined.\<close>

definition js_get :: "payload \<Rightarrow> string \<Rightarrow> jsval" where
  "js_get data k = (case map_of data k of None \<Rightarrow> JUndefined | Some v \<Rightarrow> v)"

fun typeof :: "jsval \<Rightarrow> string" where
  "typeof JUndefined = ''undefined''"
| "typeof JNull = ''object''"
| "typeof (JBool b) = ''boolean''"
| "typeof (JNum r) = ''number''"
| "typeof (JStr s) = ''string''"
| "typeof (JArr vs) = ''object''"
| "typeof (JObj fs) = ''object''"

text \<open>Truthiness, as \<^verbatim>\<open>if (v)\<close>, \<^verbatim>\<open>v && ...\<close> and \<^verbatim>\<open>v || ...\<close> read it.\<close>

fun truthy :: "jsval \<Rightarrow> bool" where
  "truthy JUndefined = False"
| "truthy JNull = False"
| "truthy (JBool b) = b"
| "truthy (JNum r) = (r \<noteq> 0)"
| "truthy (JStr s) = (s \<noteq> [])"
| "truthy (JArr vs) = True"
| "truthy (JObj fs) = True"

text \<open>
  \<^verbatim>\<open>v >= c\<close> and \<^verbatim>\<open>v <= c\<close> for a number \<open>v\<close>. In \<^verbatim>\<open>isValidCursorUpdate\<close> the
  comparisons stand behind the \<^verbatim>\<open>typeof\<close> tests of a short-circuit conjunction, so they
  are evaluated on numbers only; on any other value the conjunction is false already.
\<close>

fun num_ge :: "jsval \<Rightarrow> real \<Rightarrow> bool" where
  "num_ge (JNum r) c = (c \<le> r)"
| "num_ge v c = False"

fun num_le :: "jsval \<Rightarrow> real \<Rightarrow> bool" where
  "num_le (JNum r) c = (r \<le> c)"
| "num_le v c = False"

text \<open>
  A property read \<^verbatim>\<open>data.k\<close> on a payload of any kind. On null and on undefined it throws
  a TypeError. On an object it gives the field, or undefined. A number, a boolean, a string
  or an array that came as JSON has none of the properties \<^verbatim>\<open>x\<close>, \<^verbatim>\<open>y\<close>, \<^verbatim>\<open>ts\<close> and
  \<^verbatim>\<open>seq\<close>, so the read gives undefined.
\<close>

datatype js_error = TypeError

fun nullish :: "jsval \<Rightarrow> bool" where
  "nullish JUndefined = True"
| "nullish JNull = True"
| "nullish v = False"

fun fields_of :: "jsval \<Rightarrow> payload" where
  "fields_of (JObj fs) = fs"
| "fields_of v = []"

definition js_read :: "jsval \<Rightarrow> string \<Rightarrow> jsval" where
  "js_read data k = js_get (fields_of data) k"

section \<open>The server: \<^verbatim>\<open>server/server.js\<close>\<close>

subsection \<open>State\<close>

text \<open>
  \<^verbatim>\<open>users\<close> is a Map from socket id to \<^verbatim>\<open>{ id, name, x, y, color, lastUpdate }\<close>,
  \<^verbatim>\<open>objects\<close> a Map from object id to
  \<^verbatim>\<open>{ id, x, y, width, height, ownerId, color }\<close>. A JavaScript Map keeps its keys in
  insertion order, and \<^verbatim>\<open>forEach\<close> visits them in that order, so both are association
  lists. \<^verbatim>\<open>ownerId\<close> is null or a socket id.
\<close>

record user =
  u_id :: string
  u_name :: jsval
  u_x :: jsval
  u_y :: jsval
  u_color :: string
  u_lastUpdate :: real

record shared_object =
  o_id :: string
  o_x :: jsval
  o_y :: jsval
  o_width :: real
  o_height :: real
  o_ownerId :: "string option"
  o_color :: string

record server =
  users :: "(string \<times> user) list"
  objects :: "(string \<times> shared_object) list"

text \<open>\<^verbatim>\<open>Map.prototype.set\<close>: an existing key keeps its place, a new key is appended.\<close>

fun map_set :: "string \<Rightarrow> 'v \<Rightarrow> (string \<times> 'v) list \<Rightarrow> (string \<times> 'v) list" where
  "map_set k v [] = [(k, v)]"
| "map_set k v ((k', v') # rest) =
     (if k' = k then (k, v) # rest else (k', v') # map_set k v rest)"

text \<open>\<^verbatim>\<open>Map.prototype.delete\<close>.\<close>

fun map_delete :: "string \<Rightarrow> (string \<times> 'v) list \<Rightarrow> (string \<times> 'v) list" where
  "map_delete k [] = []"
| "map_delete k ((k', v') # rest) =
     (if k' = k then rest else (k', v') # map_delete k rest)"

text \<open>
  \<^verbatim>\<open>objects.get(objectId)\<close> with the \<^verbatim>\<open>objectId\<close> of a payload: the keys of the Map are
  strings, so only a string finds an entry.
\<close>

fun objects_get :: "(string \<times> shared_object) list \<Rightarrow> jsval \<Rightarrow> shared_object option" where
  "objects_get objs (JStr k) = map_of objs k"
| "objects_get objs v = None"

text \<open>
  An assignment to a field of the object that \<^verbatim>\<open>objects.get(objectId)\<close> returned changes
  the entry of the Map in place.
\<close>

fun objects_modify ::
  "jsval \<Rightarrow> (shared_object \<Rightarrow> shared_object) \<Rightarrow> (string \<times> shared_object) list
    \<Rightarrow> (string \<times> shared_object) list" where
  "objects_modify (JStr k) f [] = []"
| "objects_modify (JStr k) f ((k', obj) # rest) =
     (if k' = k then (k', f obj) # rest else (k', obj) # objects_modify (JStr k) f rest)"
| "objects_modify v f objs = objs"

definition initializeObjects :: "(string \<times> shared_object) list" where
  "initializeObjects =
     [(''obj-1'', \<lparr>o_id = ''obj-1'', o_x = JNum 200, o_y = JNum 200, o_width = 40,
          o_height = 40, o_ownerId = None, o_color = ''#FF6B6B''\<rparr>),
      (''obj-2'', \<lparr>o_id = ''obj-2'', o_x = JNum 500, o_y = JNum 300, o_width = 40,
          o_height = 40, o_ownerId = None, o_color = ''#4ECDC4''\<rparr>),
      (''obj-3'', \<lparr>o_id = ''obj-3'', o_x = JNum 800, o_y = JNum 150, o_width = 40,
          o_height = 40, o_ownerId = None, o_color = ''#45B7D1''\<rparr>)]"

definition initial_server :: server where
  "initial_server = \<lparr>users = [], objects = initializeObjects\<rparr>"

subsection \<open>Utility functions\<close>

definition colors :: "string list" where
  "colors = [''#FF6B6B'', ''#4ECDC4'', ''#45B7D1'', ''#FFA07A'', ''#98D8C8'',
             ''#F7DC6F'', ''#BB8FCE'', ''#85C1E2'', ''#F8B88B'', ''#A9DFBF'']"

text \<open>
  \<^verbatim>\<open>colors[Math.floor(Math.random() * colors.length)]\<close>; the argument is the value
  that \<^verbatim>\<open>Math.random()\<close> returned, a number in \<open>[0, 1)\<close>.
\<close>

definition generateRandomColor :: "real \<Rightarrow> string" where
  "generateRandomColor rnd = colors ! nat \<lfloor>rnd * real (length colors)\<rfloor>"

text \<open>
  \<^verbatim>\<open>isValidCursorUpdate(data)\<close>: the first thing it evaluates is \<^verbatim>\<open>data.x\<close>, which throws
  when the payload is null or undefined; otherwise it returns the conjunction.
\<close>

definition isValidCursorUpdate :: "jsval \<Rightarrow> js_error + bool" where
  "isValidCursorUpdate data =
     (if nullish data then Inl TypeError
      else Inr
        (typeof (js_read data ''x'') = ''number'' \<and>
         typeof (js_read data ''y'') = ''number'' \<and>
         typeof (js_read data ''ts'') = ''number'' \<and>
         typeof (js_read data ''seq'') = ''number'' \<and>
         num_ge (js_read data ''x'') 0 \<and>
         num_le (js_read data ''x'') 10000 \<and>
         num_ge (js_read data ''y'') 0 \<and>
         num_le (js_read data ''y'') 10000))"

definition getObjectState :: "server \<Rightarrow> shared_object list" where
  "getObjectState st = map snd (objects st)"

subsection \<open>Events sent to clients\<close>

text \<open>
  The payloads of the events the server emits, fields in the order of the source:
  \<^item> \<^verbatim>\<open>init\<close> after a join: userId, users, objects, color; after a reset: objects only;
  \<^item> \<^verbatim>\<open>user_joined\<close>: id, name, x, y, color;
  \<^item> \<^verbatim>\<open>cursor_update\<close>: id, x, y, ts, seq, name, color;
  \<^item> \<^verbatim>\<open>object_reject\<close>: objectId, reason;
  \<^item> \<^verbatim>\<open>object_update\<close>: id, x, y, ownerId;
  \<^item> \<^verbatim>\<open>user_left\<close>: id.
\<close>

datatype out_event =
    Init string "user list" "shared_object list" string
  | Init_objects "shared_object list"
  | User_joined string jsval jsval jsval string
  | Cursor_update string jsval jsval jsval jsval jsval string
  | Object_reject jsval string
  | Object_update jsval jsval jsval "string option"
  | User_left string

text \<open>
  The three ways the source emits: \<^verbatim>\<open>socket.emit\<close> (to the socket of the handler),
  \<^verbatim>\<open>io.emit\<close> (to every connected socket) and \<^verbatim>\<open>socket.broadcast.emit\<close> (to every
  connected socket but the socket of the handler).
\<close>

datatype target = Socket_emit string | Io_emit | Broadcast_emit string

type_synonym emission = "target \<times> out_event"

text \<open>
  A socket is in \<^verbatim>\<open>users\<close> from its connection to its disconnect handler, which deletes
  it first; Socket.IO has removed a disconnecting socket from the namespace before that
  handler runs. So the connected sockets are the keys of \<^verbatim>\<open>users\<close>.
\<close>

definition connections :: "server \<Rightarrow> string set" where
  "connections st = fst ` set (users st)"

fun delivers :: "server \<Rightarrow> target \<Rightarrow> string \<Rightarrow> bool" where
  "delivers st (Socket_emit s) r = (r = s)"
| "delivers st Io_emit r = (r \<in> connections st)"
| "delivers st (Broadcast_emit s) r = (r \<in> connections st \<and> r \<noteq> s)"

text \<open>The events that connection \<open>r\<close> receives from a list of emissions, in order.\<close>

definition received :: "server \<Rightarrow> emission list \<Rightarrow> string \<Rightarrow> out_event list" where
  "received st ems r = map snd (filter (\<lambda>em. delivers st (fst em) r) ems)"

subsection \<open>Handlers\<close>

text \<open>Each handler takes the state and returns the new state and what it emitted.\<close>

definition connection :: "string \<Rightarrow> real \<Rightarrow> real \<Rightarrow> server \<Rightarrow> server \<times> emission list" where
  "connection sid rnd now st =
     (st\<lparr>users := map_set sid
          \<lparr>u_id = sid, u_name = JStr (''User '' @ take 5 sid), u_x = JNum 0, u_y = JNum 0,
           u_color = generateRandomColor rnd, u_lastUpdate = now\<rparr> (users st)\<rparr>, [])"

text \<open>
  \<^verbatim>\<open>join\<close>: without a record for the socket, \<^verbatim>\<open>user.name\<close> in the log line throws.
  \<^verbatim>\<open>userColor\<close> is the colour the connection drew, which is the record's colour.
\<close>

definition join :: "string \<Rightarrow> payload \<Rightarrow> server \<Rightarrow> js_error + server \<times> emission list" where
  "join sid data st =
     (case map_of (users st) sid of
        None \<Rightarrow> Inl TypeError
      | Some user0 \<Rightarrow>
          let user1 = (if truthy (js_get data ''name'')
                       then user0\<lparr>u_name := js_get data ''name''\<rparr> else user0);
              st' = st\<lparr>users := map_set sid user1 (users st)\<rparr>
          in Inr (st',
               [(Socket_emit sid,
                  Init sid (filter (\<lambda>u. u_id u \<noteq> sid) (map snd (users st')))
                    (getObjectState st') (u_color user1)),
                (Broadcast_emit sid,
                  User_joined sid (u_name user1) (u_x user1) (u_y user1) (u_color user1))]))"

text \<open>
  \<^verbatim>\<open>cursor_move\<close>: an exception of the validation leaves the handler, which has no
  \<^verbatim>\<open>try\<close>.
\<close>

definition cursor_move ::
  "string \<Rightarrow> jsval \<Rightarrow> real \<Rightarrow> server \<Rightarrow> js_error + server \<times> emission list" where
  "cursor_move sid data now st =
     (case isValidCursorUpdate data of
        Inl err \<Rightarrow> Inl err
      | Inr valid \<Rightarrow>
          if \<not> valid then Inr (st, [])
          else case map_of (users st) sid of
            None \<Rightarrow> Inr (st, [])
          | Some user0 \<Rightarrow>
              Inr (st\<lparr>users := map_set sid
                     (user0\<lparr>u_x := js_read data ''x'', u_y := js_read data ''y'',
                        u_lastUpdate := now\<rparr>)
                     (users st)\<rparr>,
                   [(Broadcast_emit sid,
                      Cursor_update sid (js_read data ''x'') (js_read data ''y'')
                        (js_read data ''ts'') (js_read data ''seq'') (u_name user0)
                        (u_color user0))]))"

text \<open>\<^verbatim>\<open>obj.ownerId && ...\<close>: null and the empty string are falsy.\<close>

fun owner_truthy :: "string option \<Rightarrow> bool" where
  "owner_truthy None = False"
| "owner_truthy (Some s) = (s \<noteq> [])"

definition pickup :: "string \<Rightarrow> payload \<Rightarrow> server \<Rightarrow> server \<times> emission list" where
  "pickup sid data st =
     (let objectId = js_get data ''objectId'' in
      case objects_get (objects st) objectId of
        None \<Rightarrow> (st, [(Socket_emit sid, Object_reject objectId ''Object not found'')])
      | Some obj \<Rightarrow>
          if owner_truthy (o_ownerId obj) \<and> o_ownerId obj \<noteq> Some sid
          then (st, [(Socket_emit sid,
                       Object_reject objectId ''Object is owned by another user'')])
          else (st\<lparr>objects := objects_modify objectId (\<lambda>ob. ob\<lparr>o_ownerId := Some sid\<rparr>)
                                 (objects st)\<rparr>,
                [(Io_emit, Object_update objectId (o_x obj) (o_y obj) (Some sid))]))"

definition object_move :: "string \<Rightarrow> payload \<Rightarrow> server \<Rightarrow> server \<times> emission list" where
  "object_move sid data st =
     (let objectId = js_get data ''objectId''; x = js_get data ''x''; y = js_get data ''y'' in
      case objects_get (objects st) objectId of
        None \<Rightarrow> (st, [])
      | Some obj \<Rightarrow>
          if o_ownerId obj \<noteq> Some sid
          then (st, [(Socket_emit sid, Object_reject objectId ''You do not own this object'')])
          else (st\<lparr>objects := objects_modify objectId (\<lambda>ob. ob\<lparr>o_x := x, o_y := y\<rparr>)
                                 (objects st)\<rparr>,
                [(Io_emit, Object_update objectId x y (o_ownerId obj))]))"

definition drop_object :: "string \<Rightarrow> payload \<Rightarrow> server \<Rightarrow> server \<times> emission list" where
  "drop_object sid data st =
     (let objectId = js_get data ''objectId''; x = js_get data ''x''; y = js_get data ''y'' in
      case objects_get (objects st) objectId of
        None \<Rightarrow> (st, [])
      | Some obj \<Rightarrow>
          if o_ownerId obj \<noteq> Some sid then (st, [])
          else (st\<lparr>objects := objects_modify objectId
                                 (\<lambda>ob. ob\<lparr>o_x := x, o_y := y, o_ownerId := None\<rparr>) (objects st)\<rparr>,
                [(Io_emit, Object_update objectId x y None)]))"

text \<open>
  The loop of the disconnect handler,
  \<^verbatim>\<open>objects.forEach((obj) => { if (obj.ownerId === socket.id) { ... } })\<close>: the objects
  after it and the emissions it made, in the order of the Map.
\<close>

fun release_owned ::
  "string \<Rightarrow> (string \<times> shared_object) list \<Rightarrow> (string \<times> shared_object) list \<times> emission list"
  where
  "release_owned sid [] = ([], [])"
| "release_owned sid ((k, obj) # rest) =
     (let (rest', ems) = release_owned sid rest in
      if o_ownerId obj = Some sid
      then ((k, obj\<lparr>o_ownerId := None\<rparr>) # rest',
            (Io_emit, Object_update (JStr (o_id obj)) (o_x obj) (o_y obj) None) # ems)
      else ((k, obj) # rest', ems))"

definition disconnect :: "string \<Rightarrow> server \<Rightarrow> server \<times> emission list" where
  "disconnect sid st =
     (let st1 = st\<lparr>users := map_delete sid (users st)\<rparr>;
          (objs', ems) = release_owned sid (objects st1)
      in (st1\<lparr>objects := objs'\<rparr>, ems @ [(Broadcast_emit sid, User_left sid)]))"

text \<open>\<^verbatim>\<open>POST /reset\<close>: every object is released and a fresh snapshot goes to everyone.\<close>

definition reset :: "server \<Rightarrow> server \<times> emission list" where
  "reset st =
     (let st' = st\<lparr>objects := map (\<lambda>(k, obj). (k, obj\<lparr>o_ownerId := None\<rparr>)) (objects st)\<rparr>
      in (st', [(Io_emit, Init_objects (getObjectState st'))]))"

subsection \<open>Runs of the server\<close>

text \<open>
  What can happen to the server: a socket connects (with the random number and the clock
  reading of its connection handler), a connected socket sends one of the five messages or
  disconnects, or the reset endpoint is called.
\<close>

datatype event =
    Connection string real real
  | Join string payload
  | Cursor_move string jsval real
  | Pickup string payload
  | Object_move string payload
  | Drop string payload
  | Disconnect string
  | Reset

fun handle :: "event \<Rightarrow> server \<Rightarrow> js_error + server \<times> emission list" where
  "handle (Connection sid rnd now) st = Inr (connection sid rnd now st)"
| "handle (Join sid data) st = join sid data st"
| "handle (Cursor_move sid data now) st = cursor_move sid data now st"
| "handle (Pickup sid data) st = Inr (pickup sid data st)"
| "handle (Object_move sid data) st = Inr (object_move sid data st)"
| "handle (Drop sid data) st = Inr (drop_object sid data st)"
| "handle (Disconnect sid) st = Inr (disconnect sid st)"
| "handle Reset st = Inr (reset st)"

text \<open>
  Socket.IO gives every connection a fresh, non-empty id, and runs the handlers of a socket
  only while it is connected.
\<close>

fun enabled :: "event \<Rightarrow> server \<Rightarrow> bool" where
  "enabled (Connection sid rnd now) st =
     (sid \<noteq> [] \<and> sid \<notin> connections st \<and> 0 \<le> rnd \<and> rnd < 1)"
| "enabled (Join sid data) st = (sid \<in> connections st)"
| "enabled (Cursor_move sid data now) st = (sid \<in> connections st)"
| "enabled (Pickup sid data) st = (sid \<in> connections st)"
| "enabled (Object_move sid data) st = (sid \<in> connections st)"
| "enabled (Drop sid data) st = (sid \<in> connections st)"
| "enabled (Disconnect sid) st = (sid \<in> connections st)"
| "enabled Reset st = True"

inductive reachable :: "server \<Rightarrow> bool" where
  start: "reachable initial_server"
| step: "reachable st \<Longrightarrow> enabled ev st \<Longrightarrow> handle ev st = Inr (st', ems) \<Longrightarrow> reachable st'"

section \<open>The client: \<^verbatim>\<open>frontend/utils/math.ts\<close> and \<^verbatim>\<open>frontend/components/CursorLayer.tsx\<close>\<close>

subsection \<open>\<^verbatim>\<open>throttle\<close>\<close>

text \<open>
  \<^verbatim>\<open>throttle(func, limit)\<close> returns a closure over \<^verbatim>\<open>lastCall\<close>, which starts at 0. The
  state of the closure is \<^verbatim>\<open>lastCall\<close> together with the state \<open>s\<close> that \<^verbatim>\<open>func\<close> acts on;
  \<open>now\<close> is what \<^verbatim>\<open>Date.now()\<close> returns in the call, a whole number of milliseconds far
  below \<^verbatim>\<open>2^53\<close>, so that \<^verbatim>\<open>now - lastCall\<close> is exact.
\<close>

definition throttle ::
  "('a \<Rightarrow> 's \<Rightarrow> 's) \<Rightarrow> real \<Rightarrow> 'a \<Rightarrow> real \<Rightarrow> real \<times> 's \<Rightarrow> real \<times> 's" where
  "throttle func limit args now cl =
     (case cl of (lastCall, s) \<Rightarrow>
        if now - lastCall \<ge> limit then (now, func args s) else (lastCall, s))"

subsection \<open>Arithmetic on numbers\<close>

text \<open>
  A JavaScript number is an IEEE 754 binary64 value, and \<^verbatim>\<open>+\<close>, \<^verbatim>\<open>-\<close>, \<^verbatim>\<open>*\<close> and \<^verbatim>\<open>/\<close>
  return the exact result rounded to the nearest such value, a tie going to the one with
  the even significand. A finite number is the real it denotes. The numbers around a
  positive real \<open>a\<close> are the multiples of a power of two \<open>u\<close> with
  \<^verbatim>\<open>2^52 * u <= a < 2^53 * u\<close>; \<open>ulp_search\<close> looks for it from 1, and stops at the latest at
  \<^verbatim>\<open>2^-1074\<close>, the spacing of the subnormal numbers. Results beyond the largest finite
  number (which would be an infinity) do not occur with the positions and times of this
  program and are not modelled. Comparisons, \<^verbatim>\<open>Math.min\<close> and \<^verbatim>\<open>Math.max\<close> are exact.
\<close>

definition round_half_even :: "real \<Rightarrow> int" where
  "round_half_even x =
     (let f = \<lfloor>x\<rfloor>; d = x - of_int f in
      if d < 1 / 2 then f else if 1 / 2 < d then f + 1 else if even f then f else f + 1)"

fun ulp_search :: "nat \<Rightarrow> real \<Rightarrow> real \<Rightarrow> real" where
  "ulp_search 0 u a = u"
| "ulp_search (Suc n) u a =
     (if a < 4503599627370496 * u then ulp_search n (u / 2) a
      else if 9007199254740992 * u \<le> a then ulp_search n (u * 2) a
      else u)"

text \<open>The binary64 value nearest to a real.\<close>

definition fl :: "real \<Rightarrow> real" where
  "fl x =
     (if x = 0 then 0
      else let u = ulp_search 1074 1 \<bar>x\<bar> in of_int (round_half_even (x / u)) * u)"

definition js_add :: "real \<Rightarrow> real \<Rightarrow> real" where
  "js_add x y = fl (x + y)"

definition js_sub :: "real \<Rightarrow> real \<Rightarrow> real" where
  "js_sub x y = fl (x - y)"

definition js_mul :: "real \<Rightarrow> real \<Rightarrow> real" where
  "js_mul x y = fl (x * y)"

definition js_div :: "real \<Rightarrow> real \<Rightarrow> real" where
  "js_div x y = fl (x / y)"

subsection \<open>\<^verbatim>\<open>lerp\<close>\<close>

text \<open>\<^verbatim>\<open>start + (end - start) * clampedT\<close>, each operation rounded.\<close>

definition lerp :: "real \<Rightarrow> real \<Rightarrow> real \<Rightarrow> real" where
  "lerp start finish t =
     (let clampedT = max 0 (min 1 t) in js_add start (js_mul (js_sub finish start) clampedT))"

subsection \<open>Sending the local cursor\<close>

text \<open>
  What the function under the throttle acts on: the \<^verbatim>\<open>socket\<close> prop (null or not),
  \<^verbatim>\<open>sequenceRef.current\<close>, and the \<^verbatim>\<open>cursor_move\<close> payloads emitted so far.
\<close>

record sender =
  socket :: bool
  sequenceRef :: real
  emitted :: "payload list"

text \<open>\<^verbatim>\<open>Math.round\<close> rounds to the nearest integer, a half upwards.\<close>

definition math_round :: "real \<Rightarrow> real" where
  "math_round x = of_int \<lfloor>x + 1 / 2\<rfloor>"

text \<open>
  The function that \<^verbatim>\<open>throttledSendCursor\<close> wraps. Its arguments are \<open>x\<close> and \<open>y\<close>; the
  third component is the clock reading of its own \<^verbatim>\<open>Date.now()\<close>.
\<close>

definition sendCursor :: "real \<times> real \<times> real \<Rightarrow> sender \<Rightarrow> sender" where
  "sendCursor a s =
     (case a of (x, y, ts) \<Rightarrow>
        if \<not> socket s then s
        else s\<lparr>sequenceRef := sequenceRef s + 1,
               emitted := emitted s @
                 [[(''x'', JNum (math_round x)), (''y'', JNum (math_round y)),
                   (''ts'', JNum ts), (''seq'', JNum (sequenceRef s))]]\<rparr>)"

definition throttledSendCursor ::
  "real \<times> real \<times> real \<Rightarrow> real \<Rightarrow> real \<times> sender \<Rightarrow> real \<times> sender" where
  "throttledSendCursor = throttle sendCursor 50"

text \<open>A sequence of calls, each with the clock reading of the throttle and its arguments.\<close>

fun calls :: "(real \<times> real \<times> real \<times> real) list \<Rightarrow> real \<times> sender \<Rightarrow> real \<times> sender" where
  "calls [] cl = cl"
| "calls ((now, a) # rest) cl = calls rest (throttledSendCursor a now cl)"

text \<open>A new closure, on a component whose socket is set and that has sent nothing.\<close>

definition fresh_sender :: "real \<times> sender" where
  "fresh_sender = (0, \<lparr>socket = True, sequenceRef = 0, emitted = []\<rparr>)"

subsection \<open>Remote cursors\<close>

text \<open>
  \<^verbatim>\<open>RemoteCursor\<close>: \<open>x\<close> and \<open>y\<close> are the displayed position. The payload of a
  \<^verbatim>\<open>cursor_update\<close> comes from the server, which relays numbers it has validated.
\<close>

record remote_cursor =
  rc_id :: string
  rc_name :: jsval
  rc_color :: string
  rc_x :: real
  rc_y :: real
  targetX :: real
  targetY :: real
  prevX :: real
  prevY :: real
  lastUpdateTime :: real

record cursor_update_data =
  d_id :: string
  d_x :: real
  d_y :: real
  d_name :: jsval
  d_color :: string
  d_ts :: real

text \<open>\<^verbatim>\<open>ts || Date.now()\<close> for a number \<open>ts\<close>: zero is falsy.\<close>

definition ts_or_now :: "real \<Rightarrow> real \<Rightarrow> real" where
  "ts_or_now ts now = (if ts \<noteq> 0 then ts else now)"

text \<open>
  The \<^verbatim>\<open>cursor_update\<close> listener; \<open>now\<close> is the local clock when it runs. The Map of
  remote cursors is the state; the user count of the overlay is not part of it.
\<close>

definition on_cursor_update ::
  "cursor_update_data \<Rightarrow> real \<Rightarrow> (string \<rightharpoonup> remote_cursor) \<Rightarrow> (string \<rightharpoonup> remote_cursor)" where
  "on_cursor_update data now cursors =
     (case cursors (d_id data) of
        Some existing \<Rightarrow>
          cursors(d_id data \<mapsto> existing\<lparr>prevX := rc_x existing, prevY := rc_y existing,
            targetX := d_x data, targetY := d_y data,
            lastUpdateTime := ts_or_now (d_ts data) now\<rparr>)
      | None \<Rightarrow>
          cursors(d_id data \<mapsto> \<lparr>rc_id = d_id data, rc_name = d_name data,
            rc_color = d_color data, rc_x = d_x data, rc_y = d_y data,
            targetX = d_x data, targetY = d_y data, prevX = d_x data, prevY = d_y data,
            lastUpdateTime = ts_or_now (d_ts data) now\<rparr>))"

text \<open>The \<^verbatim>\<open>user_joined\<close> and \<^verbatim>\<open>user_left\<close> listeners (payload: id, name, x, y, color).\<close>

definition on_user_joined ::
  "string \<Rightarrow> jsval \<Rightarrow> real \<Rightarrow> real \<Rightarrow> string \<Rightarrow> real \<Rightarrow> (string \<rightharpoonup> remote_cursor)
    \<Rightarrow> (string \<rightharpoonup> remote_cursor)" where
  "on_user_joined uid nm x y col now cursors =
     cursors(uid \<mapsto> \<lparr>rc_id = uid, rc_name = nm, rc_color = col, rc_x = x, rc_y = y,
       targetX = x, targetY = y, prevX = x, prevY = y, lastUpdateTime = now\<rparr>)"

definition on_user_left :: "string \<Rightarrow> (string \<rightharpoonup> remote_cursor) \<Rightarrow> (string \<rightharpoonup> remote_cursor)" where
  "on_user_left uid cursors = cursors(uid := None)"

subsection \<open>The animation loop\<close>

definition INTERPOLATION_DURATION :: real where
  "INTERPOLATION_DURATION = 50"

text \<open>The body of \<^verbatim>\<open>cursors.forEach\<close> in \<^verbatim>\<open>animate\<close>, without the drawing.\<close>

definition animate_cursor :: "real \<Rightarrow> remote_cursor \<Rightarrow> remote_cursor" where
  "animate_cursor now cursor =
     (let elapsed = js_sub now (lastUpdateTime cursor);
          progress = min (js_div elapsed INTERPOLATION_DURATION) 1
      in cursor\<lparr>rc_x := lerp (prevX cursor) (targetX cursor) progress,
                rc_y := lerp (prevY cursor) (targetY cursor) progress\<rparr>)"

text \<open>
  \<^verbatim>\<open>animate\<close> returns at once when the canvas or its 2d context is missing; \<open>canvas\<close> says
  that both are there.
\<close>

definition animate ::
  "bool \<Rightarrow> real \<Rightarrow> (string \<rightharpoonup> remote_cursor) \<Rightarrow> (string \<rightharpoonup> remote_cursor)" where
  "animate canvas now cursors =
     (if \<not> canvas then cursors else (\<lambda>k. map_option (animate_cursor now) (cursors k)))"

section \<open>Invariants of the server\<close>

text \<open>
  The socket ids in \<^verbatim>\<open>users\<close> are distinct and non-empty, and each record carries its key
  as its id.
\<close>

definition users_ok :: "server \<Rightarrow> bool" where
  "users_ok st =
     (distinct (map fst (users st)) \<and> [] \<notin> connections st \<and>
      (\<forall>k u. (k, u) \<in> set (users st) \<longrightarrow> u_id u = k))"

text \<open>The objects are the three of \<^verbatim>\<open>initializeObjects\<close>, each under its own id.\<close>

definition objects_ok :: "server \<Rightarrow> bool" where
  "objects_ok st =
     (map fst (objects st) = map fst initializeObjects \<and>
      (\<forall>k obj. (k, obj) \<in> set (objects st) \<longrightarrow> o_id obj = k))"

text \<open>Every owner is a connected socket.\<close>

definition owners_connected :: "server \<Rightarrow> bool" where
  "owners_connected st =
     (\<forall>k obj s. (k, obj) \<in> set (objects st) \<longrightarrow> o_ownerId obj = Some s \<longrightarrow> s \<in> connections st)"

definition server_inv :: "server \<Rightarrow> bool" where
  "server_inv st = (users_ok st \<and> objects_ok st \<and> owners_connected st)"

section \<open>Example states\<close>

text \<open>
  Two sockets \<open>A\<close> and \<open>B\<close> have connected; then \<open>A\<close> has picked up \<^verbatim>\<open>obj-1\<close>.
\<close>

definition state_AB :: server where
  "state_AB = fst (connection ''B'' 0 0 (fst (connection ''A'' 0 0 initial_server)))"

definition state_A_owns :: server where
  "state_A_owns = fst (pickup ''A'' [(''objectId'', JStr ''obj-1'')] state_AB)"

section \<open>Ownership as a predicate\<close>

text \<open>
  Connection \<open>sid\<close> owns the object that the value \<open>v\<close> names: the object exists and its
  \<^verbatim>\<open>ownerId\<close> is \<open>sid\<close>.
\<close>

definition owns :: "server \<Rightarrow> string \<Rightarrow> jsval \<Rightarrow> bool" where
  "owns st sid v =
     (case objects_get (objects st) v of None \<Rightarrow> False | Some obj \<Rightarrow> o_ownerId obj = Some sid)"

section \<open>The grounds of rejection, as specified\<close>

text \<open>
  The grounds of rejection in the words of the specification: a coordinate is not a number,
  a coordinate lies outside the rectangle from 0 to 10000, or the sequence number or the
  timestamp is missing or not a number. A missing field reads as undefined, which is not a
  number.
\<close>

fun is_number :: "jsval \<Rightarrow> bool" where
  "is_number (JNum r) = True"
| "is_number v = False"

fun outside_rectangle :: "jsval \<Rightarrow> bool" where
  "outside_rectangle (JNum r) = (r < 0 \<or> 10000 < r)"
| "outside_rectangle v = False"

definition spec_rejects :: "payload \<Rightarrow> bool" where
  "spec_rejects data =
     (\<not> is_number (js_get data ''x'') \<or> \<not> is_number (js_get data ''y'') \<or>
      outside_rectangle (js_get data ''x'') \<or> outside_rectangle (js_get data ''y'') \<or>
      \<not> is_number (js_get data ''seq'') \<or> \<not> is_number (js_get data ''ts''))"

text \<open>A payload with the four fields of a \<^verbatim>\<open>cursor_move\<close>, all numbers.\<close>

definition cursor_payload :: "real \<Rightarrow> real \<Rightarrow> real \<Rightarrow> real \<Rightarrow> payload" where
  "cursor_payload x y ts seq =
     [(''x'', JNum x), (''y'', JNum y), (''ts'', JNum ts), (''seq'', JNum seq)]"

section \<open>Interpolation\<close>

text \<open>
  In exact arithmetic the formula of \<^verbatim>\<open>lerp\<close> stays between its end points for every
  clamped progress, and gives the second one at progress 1.
\<close>

lemma convex_between:
  fixes a b c :: real
  assumes "0 \<le> c" "c \<le> 1"
  shows "min a b \<le> a + (b - a) * c \<and> a + (b - a) * c \<le> max a b"
proof (cases "a \<le> b")
  case True
  have "0 \<le> (b - a) * c" using True assms by simp
  moreover have "(b - a) * c \<le> (b - a) * 1"
    using True assms by (intro mult_left_mono) simp_all
  ultimately show ?thesis using True by simp
next
  case False
  have "0 \<le> (a - b) * c" using False assms by simp
  moreover have "(a - b) * c \<le> (a - b) * 1"
    using False assms by (intro mult_left_mono) simp_all
  ultimately show ?thesis using False by (simp add: algebra_simps)
qed

text \<open>
  With the numbers of the sixth scenario of the specification the rounded operations are
  exact: from 100 to 150, half way is 125 and the end is 150.
\<close>

lemma lerp_scenario: "lerp 100 150 (1 / 2) = 125 \<and> lerp 100 150 1 = 150 \<and> lerp 100 150 7 = 150"
  by code_simp

text \<open>
  Claim C7. The displayed position is to lie between the prior and the target position,
  and to be the target at progress 1. \<^verbatim>\<open>lerp\<close> computes \<^verbatim>\<open>start + (end - start) * t\<close> in
  binary64, and the difference \<^verbatim>\<open>end - start\<close> is rounded before \<^verbatim>\<open>start\<close> is added back.
  A cursor displayed at 0.7 (the number nearest to it) moves to 0.1: at progress 1,
  \<^verbatim>\<open>lerp\<close> returns 0.09999999999999998, the number just below 0.1. It is not the
  target, and it lies below both end points. \<^verbatim>\<open>animate\<close> displays it once the
  interpolation window has passed. The server accepts such coordinates, which a client
  can send.
\<close>

theorem lerp_misses_target:
  "fl (7 / 10) = 6305039478318694 / 9007199254740992 \<and>
   fl (1 / 10) = 7205759403792794 / 72057594037927936 \<and>
   lerp (fl (7 / 10)) (fl (1 / 10)) 1 = 900719925474099 / 9007199254740992 \<and>
   lerp (fl (7 / 10)) (fl (1 / 10)) 1 < fl (1 / 10) \<and>
   lerp (fl (7 / 10)) (fl (1 / 10)) 1 < min (fl (7 / 10)) (fl (1 / 10)) \<and>
   rc_x (animate_cursor 1050
          \<lparr>rc_id = ''A'', rc_name = JStr ''User A'', rc_color = ''#FF6B6B'',
             rc_x = fl (7 / 10), rc_y = 100, targetX = fl (1 / 10), targetY = 100,
             prevX = fl (7 / 10), prevY = 100, lastUpdateTime = 1000\<rparr>) =
     900719925474099 / 9007199254740992"
proof -
  have a: "fl (7 / 10) = 6305039478318694 / 9007199254740992" by code_simp
  have b: "fl (1 / 10) = 7205759403792794 / 72057594037927936" by code_simp
  have l: "lerp (fl (7 / 10)) (fl (1 / 10)) 1 = 900719925474099 / 9007199254740992"
    by code_simp
  have c1: "lerp (fl (7 / 10)) (fl (1 / 10)) 1 < fl (1 / 10)"
    by (subst l, subst b, simp)
  have c2: "lerp (fl (7 / 10)) (fl (1 / 10)) 1 < min (fl (7 / 10)) (fl (1 / 10))"
    by (subst l, subst a, subst b, simp)
  have p: "min (js_div (js_sub 1050 1000) 50) 1 = 1" by code_simp
  have an: "rc_x (animate_cursor 1050
          \<lparr>rc_id = ''A'', rc_name = JStr ''User A'', rc_color = ''#FF6B6B'',
             rc_x = fl (7 / 10), rc_y = 100, targetX = fl (1 / 10), targetY = 100,
             prevX = fl (7 / 10), prevY = 100, lastUpdateTime = 1000\<rparr>) =
     900719925474099 / 9007199254740992"
    by (simp add: animate_cursor_def INTERPOLATION_DURATION_def p l)
  show ?thesis using a b l c1 c2 an by (intro conjI)
qed

section \<open>The Maps\<close>

lemma keys_map_set:
  "map fst (map_set k v xs) = (if k \<in> fst ` set xs then map fst xs else map fst xs @ [k])"
  by (induction xs) (force simp: image_iff)+

lemma set_map_set:
  "(k', v') \<in> set (map_set k v xs) \<Longrightarrow> (k' = k \<and> v' = v) \<or> (k', v') \<in> set xs"
  by (induction xs) (auto split: if_splits)

lemma map_of_map_set:
  "map_of (map_set k v xs) k' = (if k' = k then Some v else map_of xs k')"
  by (induction xs) auto

lemma set_map_delete: "set (map_delete k xs) \<subseteq> set xs"
  by (induction xs) (auto split: if_splits)

lemma filter_neq_absent: "k \<notin> set ys \<Longrightarrow> filter (\<lambda>k'. k' \<noteq> k) ys = ys"
  by (induction ys) auto

lemma keys_map_delete:
  "distinct (map fst xs) \<Longrightarrow> map fst (map_delete k xs) = filter (\<lambda>k'. k' \<noteq> k) (map fst xs)"
  by (induction xs) (auto simp: filter_neq_absent)

lemma map_of_map_delete:
  "distinct (map fst xs) \<Longrightarrow>
   map_of (map_delete k xs) k' = (if k' = k then None else map_of xs k')"
  by (induction xs) (force simp: map_of_eq_None_iff image_iff)+

lemma keys_objects_modify: "map fst (objects_modify v f objs) = map fst objs"
  by (induction v f objs rule: objects_modify.induct) auto

lemma set_objects_modify:
  "(k, obj') \<in> set (objects_modify v f objs) \<Longrightarrow>
   (k, obj') \<in> set objs \<or> (\<exists>obj. (k, obj) \<in> set objs \<and> obj' = f obj \<and> v = JStr k)"
  by (induction v f objs rule: objects_modify.induct) (auto split: if_splits)

lemma map_of_objects_modify:
  "map_of (objects_modify (JStr k) f objs) k' =
     (if k' = k then map_option f (map_of objs k) else map_of objs k')"
  by (induction objs) auto

lemma objects_get_Some:
  "objects_get objs v = Some obj \<Longrightarrow> \<exists>k. v = JStr k \<and> map_of objs k = Some obj"
  by (cases v) auto

lemma release_owned_objects:
  "fst (release_owned sid objs) =
     map (\<lambda>(k, obj). (k, if o_ownerId obj = Some sid then obj\<lparr>o_ownerId := None\<rparr> else obj)) objs"
  by (induction sid objs rule: release_owned.induct) (simp_all add: Let_def case_prod_unfold)

lemma release_owned_emissions:
  "snd (release_owned sid objs) =
     map (\<lambda>(k, obj). (Io_emit, Object_update (JStr (o_id obj)) (o_x obj) (o_y obj) None))
       (filter (\<lambda>(k, obj). o_ownerId obj = Some sid) objs)"
  by (induction sid objs rule: release_owned.induct) (simp_all add: Let_def case_prod_unfold)

section \<open>What each handler does to the state\<close>

lemma connected_map_set: "fst ` set (map_set k v xs) = insert k (fst ` set xs)"
proof -
  have "set (map fst (map_set k v xs)) = insert k (set (map fst xs))"
    by (auto simp: keys_map_set)
  then show ?thesis by simp
qed

lemma users_ok_map_set:
  assumes "users_ok st" and "users st' = map_set sid u (users st)"
    and "u_id u = sid" and "sid \<noteq> []"
  shows "users_ok st'"
proof -
  have d: "distinct (map fst (users st'))"
    using assms(1,2) by (auto simp: users_ok_def keys_map_set)
  have e: "[] \<notin> connections st'"
    using assms(1,2,4) by (simp add: users_ok_def connections_def connected_map_set)
  have i: "\<forall>k w. (k, w) \<in> set (users st') \<longrightarrow> u_id w = k"
    using assms(1,2,3) by (auto simp: users_ok_def dest: set_map_set)
  show ?thesis using d e i by (simp add: users_ok_def)
qed

lemma users_ok_lookup:
  "users_ok st \<Longrightarrow> map_of (users st) sid = Some u \<Longrightarrow> u_id u = sid \<and> sid \<noteq> [] \<and> sid \<in> connections st"
proof -
  assume ok: "users_ok st" and m: "map_of (users st) sid = Some u"
  have mem: "(sid, u) \<in> set (users st)" using m by (rule map_of_SomeD)
  have c: "sid \<in> connections st" using mem by (force simp: connections_def)
  have "u_id u = sid" using ok mem by (auto simp: users_ok_def)
  moreover have "sid \<noteq> []" using ok c by (auto simp: users_ok_def)
  ultimately show ?thesis using c by simp
qed

lemma connected_lookup:
  "sid \<in> connections st \<Longrightarrow> \<exists>u. map_of (users st) sid = Some u"
  by (cases "map_of (users st) sid") (auto simp: connections_def map_of_eq_None_iff)

lemma connection_effect:
  "connection sid rnd now st = (st', ems) \<Longrightarrow>
   ems = [] \<and> objects st' = objects st \<and> connections st' = insert sid (connections st) \<and>
   (\<exists>u. users st' = map_set sid u (users st) \<and> u_id u = sid)"
proof -
  assume a: "connection sid rnd now st = (st', ems)"
  define u where "u = \<lparr>u_id = sid, u_name = JStr (''User '' @ take 5 sid), u_x = JNum 0,
    u_y = JNum 0, u_color = generateRandomColor rnd, u_lastUpdate = now\<rparr>"
  have st': "st' = st\<lparr>users := map_set sid u (users st)\<rparr>" and e: "ems = []"
    using a by (simp_all add: connection_def u_def)
  have "connections st' = insert sid (connections st)"
    by (simp add: st' connections_def connected_map_set)
  moreover have "u_id u = sid" by (simp add: u_def)
  ultimately show ?thesis using e by (auto simp: st')
qed

lemma join_effect:
  assumes "users_ok st" and "join sid data st = Inr (st', ems)"
  shows "objects st' = objects st \<and> connections st' = connections st \<and> sid \<noteq> [] \<and>
         (\<exists>u. users st' = map_set sid u (users st) \<and> u_id u = sid)"
proof -
  obtain user0 where u0: "map_of (users st) sid = Some user0"
    using assms(2) by (cases "map_of (users st) sid") (auto simp: join_def)
  have f: "u_id user0 = sid \<and> sid \<noteq> [] \<and> sid \<in> connections st"
    using users_ok_lookup[OF assms(1) u0] .
  define user1 where "user1 = (if truthy (js_get data ''name'')
                       then user0\<lparr>u_name := js_get data ''name''\<rparr> else user0)"
  have st': "st' = st\<lparr>users := map_set sid user1 (users st)\<rparr>"
    using assms(2) u0 by (simp add: join_def Let_def user1_def)
  have "u_id user1 = sid" using f by (simp add: user1_def)
  moreover have "connections st' = connections st"
    using f by (simp add: st' connections_def connected_map_set insert_absorb)
  ultimately show ?thesis using f by (auto simp: st')
qed

lemma cursor_move_effect:
  assumes "users_ok st" and "cursor_move sid data now st = Inr (st', ems)"
  shows "objects st' = objects st \<and> connections st' = connections st \<and>
         (st' = st \<or> (sid \<noteq> [] \<and> (\<exists>u. users st' = map_set sid u (users st) \<and> u_id u = sid)))"
proof (cases "isValidCursorUpdate data = Inr True \<and> map_of (users st) sid \<noteq> None")
  case False
  then have "st' = st"
    using assms(2) by (auto simp: cursor_move_def split: option.splits sum.splits if_splits)
  then show ?thesis by simp
next
  case True
  then obtain user0 where u0: "map_of (users st) sid = Some user0" by auto
  have f: "u_id user0 = sid \<and> sid \<noteq> [] \<and> sid \<in> connections st"
    using users_ok_lookup[OF assms(1) u0] .
  have st': "st' = st\<lparr>users := map_set sid
               (user0\<lparr>u_x := js_read data ''x'', u_y := js_read data ''y'', u_lastUpdate := now\<rparr>)
               (users st)\<rparr>"
    using assms(2) u0 True by (simp add: cursor_move_def)
  have "connections st' = connections st"
    using f by (simp add: st' connections_def connected_map_set insert_absorb)
  then show ?thesis using f by (auto simp: st')
qed

lemma pickup_effect:
  "pickup sid data st = (st', ems) \<Longrightarrow>
   users st' = users st \<and>
   (objects st' = objects st \<or>
    objects st' = objects_modify (js_get data ''objectId'') (\<lambda>ob. ob\<lparr>o_ownerId := Some sid\<rparr>)
                    (objects st))"
  by (auto simp: pickup_def Let_def split: option.splits if_splits)

lemma object_move_effect:
  "object_move sid data st = (st', ems) \<Longrightarrow>
   users st' = users st \<and>
   (objects st' = objects st \<or>
    objects st' = objects_modify (js_get data ''objectId'')
                    (\<lambda>ob. ob\<lparr>o_x := js_get data ''x'', o_y := js_get data ''y''\<rparr>) (objects st))"
  by (auto simp: object_move_def Let_def split: option.splits if_splits)

lemma drop_object_effect:
  "drop_object sid data st = (st', ems) \<Longrightarrow>
   users st' = users st \<and>
   (objects st' = objects st \<or>
    objects st' = objects_modify (js_get data ''objectId'')
                    (\<lambda>ob. ob\<lparr>o_x := js_get data ''x'', o_y := js_get data ''y'', o_ownerId := None\<rparr>)
                    (objects st))"
  by (auto simp: drop_object_def Let_def split: option.splits if_splits)

lemma disconnect_effect:
  "disconnect sid st = (st', ems) \<Longrightarrow>
   users st' = map_delete sid (users st) \<and>
   objects st' = map (\<lambda>(k, obj). (k, if o_ownerId obj = Some sid then obj\<lparr>o_ownerId := None\<rparr> else obj))
                   (objects st) \<and>
   ems = map (\<lambda>(k, obj). (Io_emit, Object_update (JStr (o_id obj)) (o_x obj) (o_y obj) None))
           (filter (\<lambda>(k, obj). o_ownerId obj = Some sid) (objects st))
         @ [(Broadcast_emit sid, User_left sid)]"
  using release_owned_objects[of sid "objects st"] release_owned_emissions[of sid "objects st"]
  by (cases "release_owned sid (objects st)") (auto simp: disconnect_def Let_def)

lemma reset_effect:
  "reset st = (st', ems) \<Longrightarrow>
   users st' = users st \<and>
   objects st' = map (\<lambda>(k, obj). (k, obj\<lparr>o_ownerId := None\<rparr>)) (objects st)"
  by (auto simp: reset_def Let_def)

lemma objects_ok_modify:
  assumes "objects_ok st" and "objects st' = objects_modify v f (objects st)"
    and "\<And>ob. o_id (f ob) = o_id ob"
  shows "objects_ok st'"
proof -
  have "\<forall>k obj. (k, obj) \<in> set (objects st') \<longrightarrow> o_id obj = k"
    using assms by (auto simp: objects_ok_def dest!: set_objects_modify)
  then show ?thesis using assms(1,2) by (simp add: objects_ok_def keys_objects_modify)
qed

lemma objects_ok_map:
  assumes "objects_ok st" and "objects st' = map (\<lambda>(k, obj). (k, g obj)) (objects st)"
    and "\<And>ob. o_id (g ob) = o_id ob"
  shows "objects_ok st'"
  using assms by (auto simp: objects_ok_def case_prod_unfold comp_def)

lemma owners_connected_modify:
  assumes "owners_connected st" and "objects st' = objects_modify v f (objects st)"
    and "connections st' = connections st"
    and "\<And>ob s. o_ownerId (f ob) = Some s \<Longrightarrow> o_ownerId ob = Some s \<or> s \<in> connections st"
  shows "owners_connected st'"
  unfolding owners_connected_def
proof (intro allI impI)
  fix k obj' s
  assume m: "(k, obj') \<in> set (objects st')" and o: "o_ownerId obj' = Some s"
  from m assms(2) have "(k, obj') \<in> set (objects st) \<or>
      (\<exists>obj. (k, obj) \<in> set (objects st) \<and> obj' = f obj \<and> v = JStr k)"
    by (auto dest: set_objects_modify)
  then show "s \<in> connections st'"
  proof
    assume "(k, obj') \<in> set (objects st)"
    then show ?thesis using assms(1,3) o by (auto simp: owners_connected_def)
  next
    assume "\<exists>obj. (k, obj) \<in> set (objects st) \<and> obj' = f obj \<and> v = JStr k"
    then obtain obj where ob: "(k, obj) \<in> set (objects st)" "obj' = f obj" by blast
    from assms(4)[of obj s] o ob(2) have "o_ownerId obj = Some s \<or> s \<in> connections st" by simp
    then show ?thesis using assms(1,3) ob(1) by (auto simp: owners_connected_def)
  qed
qed

lemma owners_connected_same_objects:
  "owners_connected st \<Longrightarrow> objects st' = objects st \<Longrightarrow> connections st \<subseteq> connections st' \<Longrightarrow>
   owners_connected st'"
  by (auto simp: owners_connected_def)

section \<open>The invariants hold in every reachable state\<close>

lemma users_ok_same: "users_ok st \<Longrightarrow> users st' = users st \<Longrightarrow> users_ok st'"
  by (simp add: users_ok_def connections_def)

lemma connections_same: "users st' = users st \<Longrightarrow> connections st' = connections st"
  by (simp add: connections_def)

lemma objects_ok_same: "objects_ok st \<Longrightarrow> objects st' = objects st \<Longrightarrow> objects_ok st'"
  by (simp add: objects_ok_def)

lemma connections_map_delete:
  assumes "distinct (map fst (users st))" and "users st' = map_delete sid (users st)"
  shows "connections st' = connections st - {sid}"
proof -
  have "set (map fst (users st')) = set (map fst (users st)) - {sid}"
    using assms by (auto simp: keys_map_delete)
  then show ?thesis by (simp add: connections_def)
qed

lemma users_ok_map_delete:
  assumes "users_ok st" and "users st' = map_delete sid (users st)"
  shows "users_ok st'"
proof -
  have d: "distinct (map fst (users st'))"
    using assms by (simp add: users_ok_def keys_map_delete)
  have c: "connections st' = connections st - {sid}"
    using assms by (intro connections_map_delete) (simp_all add: users_ok_def)
  have i: "\<forall>k w. (k, w) \<in> set (users st') \<longrightarrow> u_id w = k"
    using assms set_map_delete[of sid "users st"] by (auto simp: users_ok_def)
  show ?thesis using d c i assms(1) by (simp add: users_ok_def)
qed

lemma inv_connection:
  assumes "server_inv st" and "enabled (Connection sid rnd now) st"
    and "connection sid rnd now st = (st', ems)"
  shows "server_inv st'"
proof -
  from connection_effect[OF assms(3)] have
    e12: "objects st' = objects st" "connections st' = insert sid (connections st)"
    and ex: "\<exists>u. users st' = map_set sid u (users st) \<and> u_id u = sid" by simp_all
  from ex obtain u where e34: "users st' = map_set sid u (users st)" "u_id u = sid"
    by (elim exE conjE)
  note e = e12 e34
  have "users_ok st'"
    using assms(1,2) e(3,4) by (intro users_ok_map_set[of st st' sid u]) (simp_all add: server_inv_def)
  moreover have "objects_ok st'" using assms(1) e(1) by (intro objects_ok_same[of st st']) (simp_all add: server_inv_def)
  moreover have "owners_connected st'"
    using assms(1) e(1,2) by (intro owners_connected_same_objects[of st st']) (auto simp: server_inv_def)
  ultimately show ?thesis by (simp add: server_inv_def)
qed

lemma inv_join:
  assumes "server_inv st" and "join sid data st = Inr (st', ems)"
  shows "server_inv st'"
proof -
  have ok: "users_ok st" using assms(1) by (simp add: server_inv_def)
  from join_effect[OF ok assms(2)] have
    e123: "objects st' = objects st" "connections st' = connections st" "sid \<noteq> []"
    and ex: "\<exists>u. users st' = map_set sid u (users st) \<and> u_id u = sid" by simp_all
  from ex obtain u where e45: "users st' = map_set sid u (users st)" "u_id u = sid"
    by (elim exE conjE)
  note e = e123 e45
  have "users_ok st'" using ok e(3,4,5) by (intro users_ok_map_set[of st st' sid u])
  moreover have "objects_ok st'" using assms(1) e(1) by (intro objects_ok_same[of st st']) (simp_all add: server_inv_def)
  moreover have "owners_connected st'"
    using assms(1) e(1,2) by (intro owners_connected_same_objects[of st st']) (auto simp: server_inv_def)
  ultimately show ?thesis by (simp add: server_inv_def)
qed

lemma inv_cursor_move:
  assumes "server_inv st" and "cursor_move sid data now st = Inr (st', ems)"
  shows "server_inv st'"
proof -
  have ok: "users_ok st" using assms(1) by (simp add: server_inv_def)
  from cursor_move_effect[OF ok assms(2)] have
    e: "objects st' = objects st" "connections st' = connections st"
    and d: "st' = st \<or> (sid \<noteq> [] \<and> (\<exists>u. users st' = map_set sid u (users st) \<and> u_id u = sid))"
    by simp_all
  have "users_ok st'"
  proof (cases "st' = st")
    case True then show ?thesis using ok by simp
  next
    case False
    then have "sid \<noteq> [] \<and> (\<exists>u. users st' = map_set sid u (users st) \<and> u_id u = sid)"
      using d by simp
    then obtain u where "sid \<noteq> []" "users st' = map_set sid u (users st)" "u_id u = sid"
      by (elim exE conjE)
    then show ?thesis using ok by (intro users_ok_map_set[of st st' sid u])
  qed
  moreover have "objects_ok st'" using assms(1) e(1) by (intro objects_ok_same[of st st']) (simp_all add: server_inv_def)
  moreover have "owners_connected st'"
    using assms(1) e by (intro owners_connected_same_objects[of st st']) (auto simp: server_inv_def)
  ultimately show ?thesis by (simp add: server_inv_def)
qed

lemma inv_modify:
  assumes "server_inv st" and "users st' = users st"
    and "objects st' = objects st \<or> objects st' = objects_modify v f (objects st)"
    and "\<And>ob. o_id (f ob) = o_id ob"
    and "\<And>ob s. o_ownerId (f ob) = Some s \<Longrightarrow> o_ownerId ob = Some s \<or> s \<in> connections st"
  shows "server_inv st'"
proof -
  have c: "connections st' = connections st" using assms(2) by (rule connections_same)
  have u: "users_ok st'" using assms(1,2) by (intro users_ok_same[of st st']) (simp_all add: server_inv_def)
  from assms(3) show ?thesis
  proof
    assume s: "objects st' = objects st"
    have "objects_ok st'" using assms(1) s by (intro objects_ok_same[of st st']) (simp_all add: server_inv_def)
    moreover have "owners_connected st'"
      using assms(1) s c by (intro owners_connected_same_objects[of st st']) (auto simp: server_inv_def)
    ultimately show ?thesis using u by (simp add: server_inv_def)
  next
    assume m: "objects st' = objects_modify v f (objects st)"
    have "objects_ok st'"
      using assms(1) m assms(4) by (intro objects_ok_modify[of st st' v f]) (simp_all add: server_inv_def)
    moreover have "owners_connected st'"
      using assms(1) m c assms(5)
      by (intro owners_connected_modify[of st st' v f]) (simp_all add: server_inv_def)
    ultimately show ?thesis using u by (simp add: server_inv_def)
  qed
qed

lemma inv_pickup:
  assumes "server_inv st" and "sid \<in> connections st" and "pickup sid data st = (st', ems)"
  shows "server_inv st'"
  using pickup_effect[OF assms(3)] assms(1,2)
  by (intro inv_modify[of st st' "js_get data ''objectId''" "\<lambda>ob. ob\<lparr>o_ownerId := Some sid\<rparr>"])
     auto

lemma inv_object_move:
  assumes "server_inv st" and "object_move sid data st = (st', ems)"
  shows "server_inv st'"
  using object_move_effect[OF assms(2)] assms(1)
  by (intro inv_modify[of st st' "js_get data ''objectId''"
        "\<lambda>ob. ob\<lparr>o_x := js_get data ''x'', o_y := js_get data ''y''\<rparr>"]) auto

lemma inv_drop_object:
  assumes "server_inv st" and "drop_object sid data st = (st', ems)"
  shows "server_inv st'"
  using drop_object_effect[OF assms(2)] assms(1)
  by (intro inv_modify[of st st' "js_get data ''objectId''"
        "\<lambda>ob. ob\<lparr>o_x := js_get data ''x'', o_y := js_get data ''y'', o_ownerId := None\<rparr>"]) auto

lemma inv_disconnect:
  assumes "server_inv st" and "disconnect sid st = (st', ems)"
  shows "server_inv st'"
proof -
  from disconnect_effect[OF assms(2)] have
    u: "users st' = map_delete sid (users st)" and
    o: "objects st' = map (\<lambda>(k, obj). (k, if o_ownerId obj = Some sid then obj\<lparr>o_ownerId := None\<rparr> else obj))
                   (objects st)" by simp_all
  have ok: "users_ok st" using assms(1) by (simp add: server_inv_def)
  have c: "connections st' = connections st - {sid}"
    using ok u by (intro connections_map_delete) (simp_all add: users_ok_def)
  have "users_ok st'" using ok u by (rule users_ok_map_delete)
  moreover have "objects_ok st'"
    using assms(1) o
    by (intro objects_ok_map[of st st' "\<lambda>obj. if o_ownerId obj = Some sid then obj\<lparr>o_ownerId := None\<rparr> else obj"])
       (simp_all add: server_inv_def)
  moreover have "owners_connected st'"
    unfolding owners_connected_def
  proof (intro allI impI)
    fix k obj' s
    assume m: "(k, obj') \<in> set (objects st')" and w: "o_ownerId obj' = Some s"
    from m o obtain obj where ob: "(k, obj) \<in> set (objects st)"
      "obj' = (if o_ownerId obj = Some sid then obj\<lparr>o_ownerId := None\<rparr> else obj)" by auto
    from ob(2) w have "o_ownerId obj = Some s \<and> s \<noteq> sid" by (auto split: if_splits)
    moreover have "owners_connected st" using assms(1) by (simp add: server_inv_def)
    ultimately show "s \<in> connections st'" using ob(1) c by (auto simp: owners_connected_def)
  qed
  ultimately show ?thesis by (simp add: server_inv_def)
qed

lemma inv_reset:
  assumes "server_inv st" and "reset st = (st', ems)"
  shows "server_inv st'"
proof -
  from reset_effect[OF assms(2)] have
    u: "users st' = users st" and
    o: "objects st' = map (\<lambda>(k, obj). (k, obj\<lparr>o_ownerId := None\<rparr>)) (objects st)" by simp_all
  have "users_ok st'" using assms(1) u by (intro users_ok_same[of st st']) (simp_all add: server_inv_def)
  moreover have "objects_ok st'"
    using assms(1) o by (intro objects_ok_map[of st st' "\<lambda>obj. obj\<lparr>o_ownerId := None\<rparr>"])
       (simp_all add: server_inv_def)
  moreover have "owners_connected st'"
    using o by (auto simp: owners_connected_def)
  ultimately show ?thesis by (simp add: server_inv_def)
qed

lemma inv_initial: "server_inv initial_server"
  by (simp add: server_inv_def users_ok_def objects_ok_def owners_connected_def
      initial_server_def initializeObjects_def connections_def)

lemma inv_step:
  assumes "server_inv st" and "enabled ev st" and "handle ev st = Inr (st', ems)"
  shows "server_inv st'"
proof (cases ev)
  case (Connection sid rnd now)
  then show ?thesis using assms inv_connection[of st sid rnd now st' ems] by simp
next
  case (Join sid data)
  then show ?thesis using assms inv_join[of st sid data st' ems] by simp
next
  case (Cursor_move sid data now)
  then show ?thesis using assms inv_cursor_move[of st sid data now st' ems] by simp
next
  case (Pickup sid data)
  then show ?thesis using assms inv_pickup[of st sid data st' ems] by simp
next
  case (Object_move sid data)
  then show ?thesis using assms inv_object_move[of st sid data st' ems] by simp
next
  case (Drop sid data)
  then show ?thesis using assms inv_drop_object[of st sid data st' ems] by simp
next
  case (Disconnect sid)
  then show ?thesis using assms inv_disconnect[of st sid st' ems] by simp
next
  case Reset
  then show ?thesis using assms inv_reset[of st st' ems] by simp
qed

lemma reachable_inv: "reachable st \<Longrightarrow> server_inv st"
  by (induction rule: reachable.induct) (auto intro: inv_initial inv_step)

section \<open>Delivery\<close>

lemma received_socket_emit:
  "received st [(Socket_emit s, e)] r = (if r = s then [e] else [])"
  by (simp add: received_def)

lemma received_io_emit:
  "r \<in> connections st \<Longrightarrow> received st (map (\<lambda>x. (Io_emit, g x)) xs) r = map g xs"
  by (induction xs) (simp_all add: received_def)

lemma received_io_emit_absent:
  "r \<notin> connections st \<Longrightarrow> received st (map (\<lambda>x. (Io_emit, g x)) xs) r = []"
  by (induction xs) (simp_all add: received_def)

lemma received_broadcast_emit:
  "received st [(Broadcast_emit s, e)] r = (if r \<in> connections st \<and> r \<noteq> s then [e] else [])"
  by (simp add: received_def)

lemma received_append:
  "received st (xs @ ys) r = received st xs r @ received st ys r"
  by (simp add: received_def)

section \<open>Exclusive ownership\<close>

lemma unique_entry:
  "distinct (map fst xs) \<Longrightarrow> (k, a) \<in> set xs \<Longrightarrow> (k, b) \<in> set xs \<Longrightarrow> a = b"
  by (rule eq_key_imp_eq_value)

lemma objects_distinct: "objects_ok st \<Longrightarrow> distinct (map fst (objects st))"
  by (simp add: objects_ok_def initializeObjects_def)

lemma pickup_grant:
  assumes "pickup sid data st = (st', ems)"
  shows "st' = st \<or>
    (\<exists>obj. objects_get (objects st) (js_get data ''objectId'') = Some obj \<and>
       \<not> (owner_truthy (o_ownerId obj) \<and> o_ownerId obj \<noteq> Some sid) \<and>
       objects st' = objects_modify (js_get data ''objectId'') (\<lambda>ob. ob\<lparr>o_ownerId := Some sid\<rparr>)
                       (objects st))"
  using assms by (auto simp: pickup_def Let_def split: option.splits if_splits)

lemma owner_of_reachable:
  assumes "server_inv st" and "(k, obj) \<in> set (objects st)" and "o_ownerId obj = Some s"
  shows "s \<in> connections st \<and> s \<noteq> []"
proof -
  have "s \<in> connections st"
    using assms by (auto simp: server_inv_def owners_connected_def)
  moreover have "[] \<notin> connections st" using assms(1) by (simp add: server_inv_def users_ok_def)
  ultimately show ?thesis by auto
qed

lemma set_modified:
  assumes "objs' = objs \<or> objs' = objects_modify v f objs" and "(k, obj') \<in> set objs'"
  shows "(k, obj') \<in> set objs \<or> (\<exists>obj. (k, obj) \<in> set objs \<and> obj' = f obj)"
  using assms(1)
proof
  assume "objs' = objs" then show ?thesis using assms(2) by simp
next
  assume "objs' = objects_modify v f objs"
  then have "(k, obj') \<in> set (objects_modify v f objs)" using assms(2) by simp
  from set_objects_modify[OF this] show ?thesis by blast
qed

lemma new_owner_only_by_pickup:
  assumes inv: "server_inv st" and en: "enabled ev st" and h: "handle ev st = Inr (st', ems)"
    and m: "(k, obj') \<in> set (objects st')" and o: "o_ownerId obj' = Some s"
  shows "\<exists>obj. (k, obj) \<in> set (objects st) \<and>
           (o_ownerId obj = Some s \<or>
            (o_ownerId obj = None \<and> (\<exists>data. ev = Pickup s data \<and> js_get data ''objectId'' = JStr k)))"
proof (cases ev)
  case (Connection sid rnd now)
  then have "objects st' = objects st" using h connection_effect[of sid rnd now st st' ems] by simp
  then show ?thesis using m o by auto
next
  case (Join sid data)
  have ok: "users_ok st" using inv by (simp add: server_inv_def)
  have "objects st' = objects st" using h Join join_effect[OF ok, of sid data st' ems] by simp
  then show ?thesis using m o by auto
next
  case (Cursor_move sid data now)
  have ok: "users_ok st" using inv by (simp add: server_inv_def)
  have "objects st' = objects st"
    using h Cursor_move cursor_move_effect[OF ok, of sid data now st' ems] by simp
  then show ?thesis using m o by auto
next
  case (Pickup sid data)
  then have p: "pickup sid data st = (st', ems)" using h by simp
  from pickup_grant[OF p] show ?thesis
  proof
    assume "st' = st" then show ?thesis using m o by auto
  next
    assume "\<exists>obj. objects_get (objects st) (js_get data ''objectId'') = Some obj \<and>
       \<not> (owner_truthy (o_ownerId obj) \<and> o_ownerId obj \<noteq> Some sid) \<and>
       objects st' = objects_modify (js_get data ''objectId'') (\<lambda>ob. ob\<lparr>o_ownerId := Some sid\<rparr>)
                       (objects st)"
    then obtain obj0 where g: "objects_get (objects st) (js_get data ''objectId'') = Some obj0"
      and t: "\<not> (owner_truthy (o_ownerId obj0) \<and> o_ownerId obj0 \<noteq> Some sid)"
      and e: "objects st' = objects_modify (js_get data ''objectId'')
                (\<lambda>ob. ob\<lparr>o_ownerId := Some sid\<rparr>) (objects st)" by (elim exE conjE)
    from set_objects_modify[of k obj' "js_get data ''objectId''" _ "objects st"] m e
    have "(k, obj') \<in> set (objects st) \<or>
      (\<exists>obj. (k, obj) \<in> set (objects st) \<and> obj' = obj\<lparr>o_ownerId := Some sid\<rparr> \<and>
         js_get data ''objectId'' = JStr k)" by simp
    then show ?thesis
    proof
      assume "(k, obj') \<in> set (objects st)" then show ?thesis using o by auto
    next
      assume "\<exists>obj. (k, obj) \<in> set (objects st) \<and> obj' = obj\<lparr>o_ownerId := Some sid\<rparr> \<and>
         js_get data ''objectId'' = JStr k"
      then obtain obj where ob: "(k, obj) \<in> set (objects st)"
        "obj' = obj\<lparr>o_ownerId := Some sid\<rparr>" "js_get data ''objectId'' = JStr k"
        by (elim exE conjE)
      have s: "s = sid" using o ob(2) by simp
      have d: "distinct (map fst (objects st))"
        using inv by (simp add: server_inv_def objects_distinct)
      have "map_of (objects st) k = Some obj0" using g ob(3) by simp
      then have "(k, obj0) \<in> set (objects st)" by (rule map_of_SomeD)
      with d have eq: "obj0 = obj" using ob(1) by (rule unique_entry)
      have "o_ownerId obj = Some sid \<or> o_ownerId obj = None"
      proof (cases "o_ownerId obj")
        case None then show ?thesis by simp
      next
        case (Some w)
        then have "w \<noteq> []" using owner_of_reachable[OF inv ob(1)] by simp
        then show ?thesis using t eq Some by simp
      qed
      then show ?thesis using ob(1,3) s Pickup by auto
    qed
  qed
next
  case (Object_move sid data)
  then have p: "object_move sid data st = (st', ems)" using h by simp
  from object_move_effect[OF p] have "objects st' = objects st \<or>
    objects st' = objects_modify (js_get data ''objectId'')
                    (\<lambda>ob. ob\<lparr>o_x := js_get data ''x'', o_y := js_get data ''y''\<rparr>) (objects st)"
    by simp
  from set_modified[OF this m]
  have "(k, obj') \<in> set (objects st) \<or>
      (\<exists>obj. (k, obj) \<in> set (objects st) \<and>
         obj' = obj\<lparr>o_x := js_get data ''x'', o_y := js_get data ''y''\<rparr>)" .
  then show ?thesis using o by auto
next
  case (Drop sid data)
  then have p: "drop_object sid data st = (st', ems)" using h by simp
  from drop_object_effect[OF p] have "objects st' = objects st \<or>
    objects st' = objects_modify (js_get data ''objectId'')
                    (\<lambda>ob. ob\<lparr>o_x := js_get data ''x'', o_y := js_get data ''y'', o_ownerId := None\<rparr>)
                    (objects st)"
    by simp
  from set_modified[OF this m]
  have "(k, obj') \<in> set (objects st) \<or>
      (\<exists>obj. (k, obj) \<in> set (objects st) \<and>
         obj' = obj\<lparr>o_x := js_get data ''x'', o_y := js_get data ''y'', o_ownerId := None\<rparr>)" .
  then show ?thesis using o by auto
next
  case (Disconnect sid)
  then have p: "disconnect sid st = (st', ems)" using h by simp
  from disconnect_effect[OF p] have
    "objects st' = map (\<lambda>(k, obj). (k, if o_ownerId obj = Some sid then obj\<lparr>o_ownerId := None\<rparr> else obj))
                   (objects st)" by simp
  with m obtain obj where "(k, obj) \<in> set (objects st)"
      "obj' = (if o_ownerId obj = Some sid then obj\<lparr>o_ownerId := None\<rparr> else obj)" by auto
  then show ?thesis using o by (auto split: if_splits)
next
  case Reset
  then have p: "reset st = (st', ems)" using h by simp
  from reset_effect[OF p] m o show ?thesis by auto
qed

subsection \<open>The example states\<close>

lemma state_AB_eq:
  "state_AB = \<lparr>users =
      [(''A'', \<lparr>u_id = ''A'', u_name = JStr ''User A'', u_x = JNum 0, u_y = JNum 0,
          u_color = ''#FF6B6B'', u_lastUpdate = 0\<rparr>),
       (''B'', \<lparr>u_id = ''B'', u_name = JStr ''User B'', u_x = JNum 0, u_y = JNum 0,
          u_color = ''#FF6B6B'', u_lastUpdate = 0\<rparr>)],
     objects = initializeObjects\<rparr>"
  by (simp add: state_AB_def connection_def initial_server_def generateRandomColor_def colors_def)

lemma state_A_owns_eq:
  "state_A_owns = \<lparr>users = users state_AB,
     objects =
       [(''obj-1'', \<lparr>o_id = ''obj-1'', o_x = JNum 200, o_y = JNum 200, o_width = 40,
          o_height = 40, o_ownerId = Some ''A'', o_color = ''#FF6B6B''\<rparr>),
        (''obj-2'', \<lparr>o_id = ''obj-2'', o_x = JNum 500, o_y = JNum 300, o_width = 40,
          o_height = 40, o_ownerId = None, o_color = ''#4ECDC4''\<rparr>),
        (''obj-3'', \<lparr>o_id = ''obj-3'', o_x = JNum 800, o_y = JNum 150, o_width = 40,
          o_height = 40, o_ownerId = None, o_color = ''#45B7D1''\<rparr>)]\<rparr>"
  by (simp add: state_A_owns_def state_AB_eq pickup_def js_get_def initializeObjects_def)

lemma connections_state_AB: "connections state_AB = {''A'', ''B''}"
  by (simp add: state_AB_eq connections_def)

lemma connections_state_A_owns: "connections state_A_owns = {''A'', ''B''}"
  by (simp add: state_A_owns_eq connections_def state_AB_eq)

lemma reachable_state_AB: "reachable state_AB"
proof -
  have a: "reachable (fst (connection ''A'' 0 0 initial_server))"
    by (rule reachable.step[OF reachable.start, of "Connection ''A'' 0 0" _ "[]"])
       (simp_all add: connections_def initial_server_def connection_def)
  have "connections (fst (connection ''A'' 0 0 initial_server)) = {''A''}"
    by (simp add: connections_def initial_server_def connection_def)
  then show ?thesis
    unfolding state_AB_def
    by (intro reachable.step[OF a, of "Connection ''B'' 0 0" _ "[]"])
       (simp_all add: connection_def)
qed

lemma reachable_state_A_owns: "reachable state_A_owns"
  unfolding state_A_owns_def
  by (rule reachable.step[OF reachable_state_AB, of "Pickup ''A'' [(''objectId'', JStr ''obj-1'')]" _
        "snd (pickup ''A'' [(''objectId'', JStr ''obj-1'')] state_AB)"])
     (simp_all add: connections_state_AB)

subsection \<open>The invariant\<close>

text \<open>
  Claim C1. In every reachable state of the server, the \<^verbatim>\<open>ownerId\<close> of each shared object
  is null or the id of exactly one connected user; an object id has one entry, so one
  \<^verbatim>\<open>ownerId\<close>, and at most one connection owns the object. Whenever a handler leaves an
  object with a non-null owner, the object had that owner before, or it had none and the
  handler was the pickup of that object by the new owner: pickup assigns \<^verbatim>\<open>ownerId\<close> only
  when it is null or already the requester, and nothing else assigns a non-null one.
\<close>

theorem ownership_exclusive:
  assumes "reachable st"
  shows "(\<forall>k obj. (k, obj) \<in> set (objects st) \<longrightarrow>
            o_ownerId obj = None \<or>
            (\<exists>s. o_ownerId obj = Some s \<and> s \<in> connections st \<and>
                 (\<exists>!u. (s, u) \<in> set (users st)))) \<and>
         (\<forall>k obj obj'. (k, obj) \<in> set (objects st) \<longrightarrow> (k, obj') \<in> set (objects st) \<longrightarrow>
            obj' = obj) \<and>
         (\<forall>ev st' ems k obj' s.
            enabled ev st \<longrightarrow> handle ev st = Inr (st', ems) \<longrightarrow>
            (k, obj') \<in> set (objects st') \<longrightarrow> o_ownerId obj' = Some s \<longrightarrow>
            (\<exists>obj. (k, obj) \<in> set (objects st) \<and>
               (o_ownerId obj = Some s \<or>
                (o_ownerId obj = None \<and>
                 (\<exists>data. ev = Pickup s data \<and> js_get data ''objectId'' = JStr k)))))"
proof -
  have inv: "server_inv st" using assms by (rule reachable_inv)
  have du: "distinct (map fst (users st))" using inv by (simp add: server_inv_def users_ok_def)
  have dob: "distinct (map fst (objects st))" using inv by (simp add: server_inv_def objects_distinct)
  have one: "\<exists>!u. (s, u) \<in> set (users st)" if "s \<in> connections st" for s
  proof -
    from that obtain u where "(s, u) \<in> set (users st)" by (auto simp: connections_def)
    then show ?thesis using du by (auto dest: unique_entry)
  qed
  have p1: "\<forall>k obj. (k, obj) \<in> set (objects st) \<longrightarrow>
            o_ownerId obj = None \<or>
            (\<exists>s. o_ownerId obj = Some s \<and> s \<in> connections st \<and>
                 (\<exists>!u. (s, u) \<in> set (users st)))"
  proof (intro allI impI)
    fix k obj assume m: "(k, obj) \<in> set (objects st)"
    show "o_ownerId obj = None \<or>
            (\<exists>s. o_ownerId obj = Some s \<and> s \<in> connections st \<and>
                 (\<exists>!u. (s, u) \<in> set (users st)))"
    proof (cases "o_ownerId obj")
      case None then show ?thesis by simp
    next
      case (Some s)
      then have "s \<in> connections st" using owner_of_reachable[OF inv m] by simp
      then show ?thesis using Some one by simp
    qed
  qed
  have p2: "\<forall>k obj obj'. (k, obj) \<in> set (objects st) \<longrightarrow> (k, obj') \<in> set (objects st) \<longrightarrow>
            obj' = obj"
    using dob by (auto dest: unique_entry)
  have p3: "\<forall>ev st' ems k obj' s.
            enabled ev st \<longrightarrow> handle ev st = Inr (st', ems) \<longrightarrow>
            (k, obj') \<in> set (objects st') \<longrightarrow> o_ownerId obj' = Some s \<longrightarrow>
            (\<exists>obj. (k, obj) \<in> set (objects st) \<and>
               (o_ownerId obj = Some s \<or>
                (o_ownerId obj = None \<and>
                 (\<exists>data. ev = Pickup s data \<and> js_get data ''objectId'' = JStr k))))"
    using new_owner_only_by_pickup[OF inv] by blast
  show ?thesis using p1 p2 p3 by (intro conjI)
qed

theorem ownership_exclusive_witness:
  "reachable state_A_owns \<and>
   (\<exists>obj. (''obj-1'', obj) \<in> set (objects state_A_owns) \<and> o_ownerId obj = Some ''A'') \<and>
   ''A'' \<in> connections state_A_owns \<and>
   (\<exists>!u. (''A'', u) \<in> set (users state_A_owns)) \<and>
   (\<exists>obj. (''obj-1'', obj) \<in> set (objects state_AB) \<and> o_ownerId obj = None)"
proof -
  let ?o1 = "\<lparr>o_id = ''obj-1'', o_x = JNum 200, o_y = JNum 200, o_width = 40,
          o_height = 40, o_ownerId = Some ''A'', o_color = ''#FF6B6B''\<rparr>"
  have m: "(''obj-1'', ?o1) \<in> set (objects state_A_owns)" by (simp add: state_A_owns_eq)
  from ownership_exclusive[OF reachable_state_A_owns, THEN conjunct1, rule_format, OF m]
  have "o_ownerId ?o1 = None \<or>
            (\<exists>s. o_ownerId ?o1 = Some s \<and> s \<in> connections state_A_owns \<and>
                 (\<exists>!u. (s, u) \<in> set (users state_A_owns)))" .
  then have a: "''A'' \<in> connections state_A_owns \<and> (\<exists>!u. (''A'', u) \<in> set (users state_A_owns))"
    by simp
  have h: "handle (Pickup ''A'' [(''objectId'', JStr ''obj-1'')]) state_AB =
      Inr (state_A_owns, snd (pickup ''A'' [(''objectId'', JStr ''obj-1'')] state_AB))"
    by (simp add: state_A_owns_def)
  have en: "enabled (Pickup ''A'' [(''objectId'', JStr ''obj-1'')]) state_AB"
    by (simp add: connections_state_AB)
  have "o_ownerId ?o1 = Some ''A''" by simp
  from ownership_exclusive[OF reachable_state_AB, THEN conjunct2, THEN conjunct2, rule_format,
      OF en h m this]
  have "\<exists>obj. (''obj-1'', obj) \<in> set (objects state_AB) \<and>
               (o_ownerId obj = Some ''A'' \<or>
                (o_ownerId obj = None \<and>
                 (\<exists>data. Pickup ''A'' [(''objectId'', JStr ''obj-1'')] = Pickup ''A'' data \<and>
                    js_get data ''objectId'' = JStr ''obj-1'')))" .
  then have b: "\<exists>obj. (''obj-1'', obj) \<in> set (objects state_AB) \<and> o_ownerId obj = None"
    by (auto simp: state_AB_eq initializeObjects_def)
  show ?thesis using reachable_state_A_owns m a b by auto
qed

section \<open>Pickup\<close>

lemma objects_get_modify:
  "objects_get (objects_modify (JStr k) f objs) v =
     (if v = JStr k then map_option f (map_of objs k) else objects_get objs v)"
  by (cases v) (simp_all add: map_of_objects_modify)

text \<open>
  Claim C2. A connected requester sends \<^verbatim>\<open>pickup\<close> in a reachable state. If the object id is
  not in the Map, the state does not change and the requester alone receives an
  \<^verbatim>\<open>object_reject\<close> with the reason \<^verbatim>\<open>Object not found\<close>. If the object has no owner, its
  \<^verbatim>\<open>ownerId\<close> becomes the requester, nothing else changes, and every connection, the
  requester among them, receives the \<^verbatim>\<open>object_update\<close>. If the owner is another
  connection, the state (so the \<^verbatim>\<open>ownerId\<close>) does not change, nothing is broadcast, and
  the requester alone receives an \<^verbatim>\<open>object_reject\<close> with the reason
  \<^verbatim>\<open>Object is owned by another user\<close>.
\<close>

theorem pickup_outcomes:
  assumes "reachable st" and "sid \<in> connections st"
  shows "(objects_get (objects st) (js_get data ''objectId'') = None \<longrightarrow>
            pickup sid data st =
              (st, [(Socket_emit sid, Object_reject (js_get data ''objectId'') ''Object not found'')]) \<and>
            received st (snd (pickup sid data st)) sid =
              [Object_reject (js_get data ''objectId'') ''Object not found''] \<and>
            (\<forall>r. r \<noteq> sid \<longrightarrow> received st (snd (pickup sid data st)) r = [])) \<and>
         (\<forall>obj. objects_get (objects st) (js_get data ''objectId'') = Some obj \<longrightarrow>
            o_ownerId obj = None \<longrightarrow>
            snd (pickup sid data st) =
              [(Io_emit, Object_update (js_get data ''objectId'') (o_x obj) (o_y obj) (Some sid))] \<and>
            users (fst (pickup sid data st)) = users st \<and>
            objects_get (objects (fst (pickup sid data st))) (js_get data ''objectId'') =
              Some (obj\<lparr>o_ownerId := Some sid\<rparr>) \<and>
            (\<forall>v. v \<noteq> js_get data ''objectId'' \<longrightarrow>
               objects_get (objects (fst (pickup sid data st))) v = objects_get (objects st) v) \<and>
            (\<forall>r. r \<in> connections st \<longrightarrow>
               received (fst (pickup sid data st)) (snd (pickup sid data st)) r =
                 [Object_update (js_get data ''objectId'') (o_x obj) (o_y obj) (Some sid)]) \<and>
            received (fst (pickup sid data st)) (snd (pickup sid data st)) sid =
              [Object_update (js_get data ''objectId'') (o_x obj) (o_y obj) (Some sid)]) \<and>
         (\<forall>obj other. objects_get (objects st) (js_get data ''objectId'') = Some obj \<longrightarrow>
            o_ownerId obj = Some other \<longrightarrow> other \<noteq> sid \<longrightarrow>
            pickup sid data st =
              (st, [(Socket_emit sid,
                      Object_reject (js_get data ''objectId'') ''Object is owned by another user'')]) \<and>
            received st (snd (pickup sid data st)) sid =
              [Object_reject (js_get data ''objectId'') ''Object is owned by another user''] \<and>
            (\<forall>r. r \<noteq> sid \<longrightarrow> received st (snd (pickup sid data st)) r = []))"
proof (intro conjI allI impI)
  assume n: "objects_get (objects st) (js_get data ''objectId'') = None"
  then show p: "pickup sid data st =
      (st, [(Socket_emit sid, Object_reject (js_get data ''objectId'') ''Object not found'')])"
    by (simp add: pickup_def Let_def)
  show "received st (snd (pickup sid data st)) sid =
      [Object_reject (js_get data ''objectId'') ''Object not found'']"
    by (simp add: p received_socket_emit)
  fix r assume "r \<noteq> sid"
  then show "received st (snd (pickup sid data st)) r = []"
    by (simp add: p received_socket_emit)
next
  fix obj
  assume g: "objects_get (objects st) (js_get data ''objectId'') = Some obj"
    and o: "o_ownerId obj = None"
  from objects_get_Some[OF g] obtain k where k: "js_get data ''objectId'' = JStr k"
    "map_of (objects st) k = Some obj" by (elim exE conjE)
  have p: "pickup sid data st =
      (st\<lparr>objects := objects_modify (JStr k) (\<lambda>ob. ob\<lparr>o_ownerId := Some sid\<rparr>) (objects st)\<rparr>,
       [(Io_emit, Object_update (JStr k) (o_x obj) (o_y obj) (Some sid))])"
    using g o k(1) by (simp add: pickup_def Let_def)
  show "snd (pickup sid data st) =
      [(Io_emit, Object_update (js_get data ''objectId'') (o_x obj) (o_y obj) (Some sid))]"
    by (simp add: p k(1))
  show "users (fst (pickup sid data st)) = users st" by (simp add: p)
  show "objects_get (objects (fst (pickup sid data st))) (js_get data ''objectId'') =
      Some (obj\<lparr>o_ownerId := Some sid\<rparr>)"
    by (simp add: p k map_of_objects_modify)
  have c: "connections (fst (pickup sid data st)) = connections st"
    by (simp add: p connections_def)
  have rc: "received (fst (pickup sid data st)) (snd (pickup sid data st)) r =
        [Object_update (js_get data ''objectId'') (o_x obj) (o_y obj) (Some sid)]"
    if "r \<in> connections st" for r
    using that c by (simp add: p k(1) received_def)
  show "received (fst (pickup sid data st)) (snd (pickup sid data st)) sid =
        [Object_update (js_get data ''objectId'') (o_x obj) (o_y obj) (Some sid)]"
    using assms(2) by (rule rc)
  { fix r assume "r \<in> connections st"
    then show "received (fst (pickup sid data st)) (snd (pickup sid data st)) r =
        [Object_update (js_get data ''objectId'') (o_x obj) (o_y obj) (Some sid)]" by (rule rc) }
  fix v assume "v \<noteq> js_get data ''objectId''"
  then show "objects_get (objects (fst (pickup sid data st))) v = objects_get (objects st) v"
    by (simp add: p k(1) objects_get_modify)
next
  fix obj other
  assume g: "objects_get (objects st) (js_get data ''objectId'') = Some obj"
    and o: "o_ownerId obj = Some other" and ne: "other \<noteq> sid"
  from objects_get_Some[OF g] obtain k where k: "js_get data ''objectId'' = JStr k"
    "map_of (objects st) k = Some obj" by (elim exE conjE)
  have "(k, obj) \<in> set (objects st)" using k(2) by (rule map_of_SomeD)
  from owner_of_reachable[OF reachable_inv[OF assms(1)] this o] have "other \<noteq> []" by simp
  then show p: "pickup sid data st =
      (st, [(Socket_emit sid,
              Object_reject (js_get data ''objectId'') ''Object is owned by another user'')])"
    using g o ne by (simp add: pickup_def Let_def)
  show "received st (snd (pickup sid data st)) sid =
      [Object_reject (js_get data ''objectId'') ''Object is owned by another user'']"
    by (simp add: p received_socket_emit)
  fix r assume "r \<noteq> sid"
  then show "received st (snd (pickup sid data st)) r = []"
    by (simp add: p received_socket_emit)
qed

theorem pickup_outcomes_witness:
  "reachable state_A_owns \<and> ''B'' \<in> connections state_A_owns \<and>
   pickup ''B'' [(''objectId'', JStr ''obj-1'')] state_A_owns =
     (state_A_owns,
      [(Socket_emit ''B'', Object_reject (JStr ''obj-1'') ''Object is owned by another user'')]) \<and>
   received state_A_owns (snd (pickup ''B'' [(''objectId'', JStr ''obj-1'')] state_A_owns)) ''B'' =
     [Object_reject (JStr ''obj-1'') ''Object is owned by another user''] \<and>
   received state_A_owns (snd (pickup ''B'' [(''objectId'', JStr ''obj-1'')] state_A_owns)) ''A'' = [] \<and>
   received (fst (pickup ''A'' [(''objectId'', JStr ''obj-1'')] state_AB))
       (snd (pickup ''A'' [(''objectId'', JStr ''obj-1'')] state_AB)) ''B'' =
     [Object_update (JStr ''obj-1'') (JNum 200) (JNum 200) (Some ''A'')] \<and>
   pickup ''A'' [(''objectId'', JStr ''obj-9'')] state_AB =
     (state_AB, [(Socket_emit ''A'', Object_reject (JStr ''obj-9'') ''Object not found'')])"
proof -
  let ?d = "[(''objectId'', JStr ''obj-1'')]"
  let ?o = "\<lparr>o_id = ''obj-1'', o_x = JNum 200, o_y = JNum 200, o_width = 40,
          o_height = 40, o_ownerId = Some ''A'', o_color = ''#FF6B6B''\<rparr>"
  let ?u = "\<lparr>o_id = ''obj-1'', o_x = JNum 200, o_y = JNum 200, o_width = 40,
          o_height = 40, o_ownerId = None, o_color = ''#FF6B6B''\<rparr>"
  have b: "''B'' \<in> connections state_A_owns" by (simp add: connections_state_A_owns)
  have a: "''A'' \<in> connections state_AB" by (simp add: connections_state_AB)
  have g: "objects_get (objects state_A_owns) (js_get ?d ''objectId'') = Some ?o"
    by (simp add: state_A_owns_eq js_get_def)
  have o: "o_ownerId ?o = Some ''A''" by simp
  have ne: "''A'' \<noteq> ''B''" by simp
  note t1 = pickup_outcomes[OF reachable_state_A_owns b, of ?d, THEN conjunct2, THEN conjunct2,
      rule_format, OF g o ne]
  have j: "js_get ?d ''objectId'' = JStr ''obj-1''" by (simp add: js_get_def)
  have c1: "pickup ''B'' ?d state_A_owns =
     (state_A_owns,
      [(Socket_emit ''B'', Object_reject (JStr ''obj-1'') ''Object is owned by another user'')])"
    and c2: "received state_A_owns (snd (pickup ''B'' ?d state_A_owns)) ''B'' =
     [Object_reject (JStr ''obj-1'') ''Object is owned by another user'']"
    and c3: "received state_A_owns (snd (pickup ''B'' ?d state_A_owns)) ''A'' = []"
    using t1[unfolded j shared_object.select_convs, THEN conjunct1] t1[unfolded j shared_object.select_convs, THEN conjunct2, THEN conjunct1]
      t1[unfolded j shared_object.select_convs, THEN conjunct2, THEN conjunct2, rule_format, OF ne] by this+
  have g2: "objects_get (objects state_AB) (js_get ?d ''objectId'') = Some ?u"
    by (simp add: state_AB_eq js_get_def initializeObjects_def)
  have o2: "o_ownerId ?u = None" by simp
  note t2 = pickup_outcomes[OF reachable_state_AB a, of ?d, THEN conjunct2, THEN conjunct1,
      rule_format, OF g2 o2]
  have bb: "''B'' \<in> connections state_AB" by (simp add: connections_state_AB)
  have c4: "received (fst (pickup ''A'' ?d state_AB)) (snd (pickup ''A'' ?d state_AB)) ''B'' =
     [Object_update (JStr ''obj-1'') (JNum 200) (JNum 200) (Some ''A'')]"
    using t2[unfolded j shared_object.select_convs, THEN conjunct2, THEN conjunct2, THEN conjunct2, THEN conjunct2,
        THEN conjunct1, rule_format, OF bb] .
  have g3: "objects_get (objects state_AB) (js_get [(''objectId'', JStr ''obj-9'')] ''objectId'') = None"
    by (simp add: state_AB_eq js_get_def initializeObjects_def)
  note t3 = pickup_outcomes[OF reachable_state_AB a, of "[(''objectId'', JStr ''obj-9'')]",
      THEN conjunct1, rule_format, OF g3]
  have c5: "pickup ''A'' [(''objectId'', JStr ''obj-9'')] state_AB =
     (state_AB, [(Socket_emit ''A'', Object_reject (JStr ''obj-9'') ''Object not found'')])"
    using t3[THEN conjunct1] by (simp add: js_get_def)
  show ?thesis using reachable_state_A_owns b c1 c2 c3 c4 c5 by (intro conjI)
qed

section \<open>Picking up an object one owns\<close>

lemma objects_modify_same:
  "map_of objs k = Some obj \<Longrightarrow> f obj = obj \<Longrightarrow> objects_modify (JStr k) f objs = objs"
  by (induction objs) (auto split: if_splits)

text \<open>
  Claim C10, amended. When the requester of a \<^verbatim>\<open>pickup\<close> is already the owner of the object,
  the request is granted: the state does not change, so \<^verbatim>\<open>ownerId\<close> remains the requester.
  The handler then emits the \<^verbatim>\<open>object_update\<close> with the unchanged state to every
  connection, as for any granted pickup.
\<close>

theorem repickup_rebroadcasts:
  assumes "objects_get (objects st) (js_get data ''objectId'') = Some obj"
    and "o_ownerId obj = Some sid"
  shows "pickup sid data st =
           (st, [(Io_emit, Object_update (js_get data ''objectId'') (o_x obj) (o_y obj) (Some sid))]) \<and>
         (\<forall>r. r \<in> connections st \<longrightarrow>
            received st (snd (pickup sid data st)) r =
              [Object_update (js_get data ''objectId'') (o_x obj) (o_y obj) (Some sid)])"
proof -
  from objects_get_Some[OF assms(1)] obtain k where k: "js_get data ''objectId'' = JStr k"
    "map_of (objects st) k = Some obj" by (elim exE conjE)
  have "obj\<lparr>o_ownerId := Some sid\<rparr> = obj" using assms(2) by simp
  with k(2) have m: "objects_modify (JStr k) (\<lambda>ob. ob\<lparr>o_ownerId := Some sid\<rparr>) (objects st) = objects st"
    by (intro objects_modify_same[of "objects st" k obj])
  have p: "pickup sid data st =
           (st, [(Io_emit, Object_update (js_get data ''objectId'') (o_x obj) (o_y obj) (Some sid))])"
    using assms k(1) m by (simp add: pickup_def Let_def)
  show ?thesis by (simp add: p received_def)
qed

theorem repickup_rebroadcasts_witness:
  "pickup ''A'' [(''objectId'', JStr ''obj-1'')] state_A_owns =
     (state_A_owns, [(Io_emit, Object_update (JStr ''obj-1'') (JNum 200) (JNum 200) (Some ''A''))]) \<and>
   received state_A_owns (snd (pickup ''A'' [(''objectId'', JStr ''obj-1'')] state_A_owns)) ''A'' =
     [Object_update (JStr ''obj-1'') (JNum 200) (JNum 200) (Some ''A'')]"
proof -
  let ?d = "[(''objectId'', JStr ''obj-1'')]"
  let ?o = "\<lparr>o_id = ''obj-1'', o_x = JNum 200, o_y = JNum 200, o_width = 40,
          o_height = 40, o_ownerId = Some ''A'', o_color = ''#FF6B6B''\<rparr>"
  have g: "objects_get (objects state_A_owns) (js_get ?d ''objectId'') = Some ?o"
    by (simp add: state_A_owns_eq js_get_def)
  have o: "o_ownerId ?o = Some ''A''" by simp
  have j: "js_get ?d ''objectId'' = JStr ''obj-1''" by (simp add: js_get_def)
  have a: "''A'' \<in> connections state_A_owns" by (simp add: connections_state_A_owns)
  note t = repickup_rebroadcasts[OF g o, unfolded j shared_object.select_convs]
  have c1: "pickup ''A'' ?d state_A_owns =
     (state_A_owns, [(Io_emit, Object_update (JStr ''obj-1'') (JNum 200) (JNum 200) (Some ''A''))])"
    using t by (rule conjunct1)
  have c2: "received state_A_owns (snd (pickup ''A'' ?d state_A_owns)) ''A'' =
     [Object_update (JStr ''obj-1'') (JNum 200) (JNum 200) (Some ''A'')]"
    using t[THEN conjunct2, rule_format, OF a] .
  show ?thesis using c1 c2 by (rule conjI)
qed

theorem repickup_is_broadcast:
  "snd (pickup ''A'' [(''objectId'', JStr ''obj-1'')] state_A_owns) =
     [(Io_emit, Object_update (JStr ''obj-1'') (JNum 200) (JNum 200) (Some ''A''))] \<and>
   received state_A_owns (snd (pickup ''A'' [(''objectId'', JStr ''obj-1'')] state_A_owns)) ''B'' =
     [Object_update (JStr ''obj-1'') (JNum 200) (JNum 200) (Some ''A'')]"
  by (simp add: pickup_def js_get_def state_A_owns_eq received_def connections_def state_AB_eq)

section \<open>Requests from a connection that does not own the object\<close>

text \<open>
  Claim C9, amended. A \<^verbatim>\<open>drop\<close> whose requester does not own the named object is ignored:
  the state does not change and nothing is emitted. An \<^verbatim>\<open>object_move\<close> whose requester does
  not own the named object changes nothing in the state (neither position nor \<^verbatim>\<open>ownerId\<close>)
  and broadcasts nothing; when the object does not exist nothing is emitted at all, and
  when it exists the requester alone receives an \<^verbatim>\<open>object_reject\<close> with the reason
  \<^verbatim>\<open>You do not own this object\<close>.
\<close>

theorem non_owner_move_and_drop:
  assumes "\<not> owns st sid (js_get data ''objectId'')"
  shows "drop_object sid data st = (st, []) \<and>
         fst (object_move sid data st) = st \<and>
         snd (object_move sid data st) =
           (case objects_get (objects st) (js_get data ''objectId'') of
              None \<Rightarrow> []
            | Some obj \<Rightarrow>
                [(Socket_emit sid,
                   Object_reject (js_get data ''objectId'') ''You do not own this object'')]) \<and>
         received st (snd (object_move sid data st)) sid =
           (case objects_get (objects st) (js_get data ''objectId'') of
              None \<Rightarrow> []
            | Some obj \<Rightarrow>
                [Object_reject (js_get data ''objectId'') ''You do not own this object'']) \<and>
         (\<forall>r. r \<noteq> sid \<longrightarrow> received st (snd (object_move sid data st)) r = [])"
proof (cases "objects_get (objects st) (js_get data ''objectId'')")
  case None
  then show ?thesis by (simp add: drop_object_def object_move_def Let_def received_def)
next
  case (Some obj)
  then have "o_ownerId obj \<noteq> Some sid" using assms by (simp add: owns_def)
  then show ?thesis
    using Some by (simp add: drop_object_def object_move_def Let_def received_def)
qed

theorem non_owner_move_and_drop_witness:
  "\<not> owns state_A_owns ''B'' (JStr ''obj-1'') \<and>
   drop_object ''B'' [(''objectId'', JStr ''obj-1''), (''x'', JNum 1), (''y'', JNum 2)] state_A_owns =
     (state_A_owns, []) \<and>
   fst (object_move ''B'' [(''objectId'', JStr ''obj-1''), (''x'', JNum 1), (''y'', JNum 2)]
         state_A_owns) = state_A_owns \<and>
   received state_A_owns
     (snd (object_move ''B'' [(''objectId'', JStr ''obj-1''), (''x'', JNum 1), (''y'', JNum 2)]
            state_A_owns)) ''A'' = []"
proof -
  let ?d = "[(''objectId'', JStr ''obj-1''), (''x'', JNum 1), (''y'', JNum 2)]"
  have j: "js_get ?d ''objectId'' = JStr ''obj-1''" by (simp add: js_get_def)
  have n: "\<not> owns state_A_owns ''B'' (JStr ''obj-1'')"
    by (simp add: owns_def state_A_owns_eq)
  have n': "\<not> owns state_A_owns ''B'' (js_get ?d ''objectId'')" unfolding j by (rule n)
  note t = non_owner_move_and_drop[OF n']
  have ne: "''A'' \<noteq> ''B''" by simp
  show ?thesis
    using n t[THEN conjunct1] t[THEN conjunct2, THEN conjunct1]
      t[THEN conjunct2, THEN conjunct2, THEN conjunct2, THEN conjunct2, rule_format, OF ne]
    by (intro conjI)
qed

theorem non_owner_move_is_answered:
  "\<not> owns state_A_owns ''B'' (JStr ''obj-1'') \<and>
   received state_A_owns
     (snd (object_move ''B'' [(''objectId'', JStr ''obj-1''), (''x'', JNum 1), (''y'', JNum 2)]
            state_A_owns)) ''B'' =
     [Object_reject (JStr ''obj-1'') ''You do not own this object'']"
  by (simp add: owns_def object_move_def js_get_def state_A_owns_eq received_def)

section \<open>Disconnect\<close>

lemma received_updates:
  "r \<in> connections st \<Longrightarrow>
   received st (map (\<lambda>(k, obj). (Io_emit, G k obj)) xs) r = map (\<lambda>(k, obj). G k obj) xs"
  by (induction xs) (auto simp: received_def)

lemma received_updates_absent:
  "r \<notin> connections st \<Longrightarrow> received st (map (\<lambda>(k, obj). (Io_emit, G k obj)) xs) r = []"
  by (induction xs) (auto simp: received_def)

text \<open>
  Claim C3. When a connected socket disconnects in a reachable state, its record is removed
  from \<^verbatim>\<open>users\<close>, so the connections that remain are the others. Each object is tested on
  its own: one whose \<^verbatim>\<open>ownerId\<close> is the disconnecting socket gets \<^verbatim>\<open>ownerId\<close> null, any other
  object is left as it is. The handler emits one \<^verbatim>\<open>object_update\<close> with a null owner for
  each released object, in the order of the Map, and \<^verbatim>\<open>user_left\<close> after them; every
  remaining connection receives exactly these, in this order, and the socket that left
  receives nothing.
\<close>

theorem disconnect_releases:
  assumes "reachable st" and "sid \<in> connections st"
  shows "users (fst (disconnect sid st)) = map_delete sid (users st) \<and>
         map_of (users (fst (disconnect sid st))) sid = None \<and>
         connections (fst (disconnect sid st)) = connections st - {sid} \<and>
         objects (fst (disconnect sid st)) =
           map (\<lambda>(k, obj). (k, if o_ownerId obj = Some sid then obj\<lparr>o_ownerId := None\<rparr> else obj))
             (objects st) \<and>
         (\<forall>k obj. (k, obj) \<in> set (objects st) \<longrightarrow> o_ownerId obj = Some sid \<longrightarrow>
            (k, obj\<lparr>o_ownerId := None\<rparr>) \<in> set (objects (fst (disconnect sid st)))) \<and>
         (\<forall>k obj. (k, obj) \<in> set (objects st) \<longrightarrow> o_ownerId obj \<noteq> Some sid \<longrightarrow>
            (k, obj) \<in> set (objects (fst (disconnect sid st)))) \<and>
         snd (disconnect sid st) =
           map (\<lambda>(k, obj). (Io_emit, Object_update (JStr (o_id obj)) (o_x obj) (o_y obj) None))
             (filter (\<lambda>(k, obj). o_ownerId obj = Some sid) (objects st))
           @ [(Broadcast_emit sid, User_left sid)] \<and>
         (\<forall>r. r \<in> connections (fst (disconnect sid st)) \<longrightarrow>
            received (fst (disconnect sid st)) (snd (disconnect sid st)) r =
              map (\<lambda>(k, obj). Object_update (JStr (o_id obj)) (o_x obj) (o_y obj) None)
                (filter (\<lambda>(k, obj). o_ownerId obj = Some sid) (objects st))
              @ [User_left sid]) \<and>
         received (fst (disconnect sid st)) (snd (disconnect sid st)) sid = []"
proof -
  obtain st' ems where d: "disconnect sid st = (st', ems)" by (cases "disconnect sid st")
  from disconnect_effect[OF d] have
    u: "users st' = map_delete sid (users st)" and
    o: "objects st' = map (\<lambda>(k, obj). (k, if o_ownerId obj = Some sid then obj\<lparr>o_ownerId := None\<rparr> else obj))
                   (objects st)" and
    e: "ems = map (\<lambda>(k, obj). (Io_emit, Object_update (JStr (o_id obj)) (o_x obj) (o_y obj) None))
           (filter (\<lambda>(k, obj). o_ownerId obj = Some sid) (objects st))
         @ [(Broadcast_emit sid, User_left sid)]" by simp_all
  have du: "distinct (map fst (users st))"
    using reachable_inv[OF assms(1)] by (simp add: server_inv_def users_ok_def)
  have c: "connections st' = connections st - {sid}" using du u by (rule connections_map_delete)
  have m: "map_of (users st') sid = None" using du by (simp add: u map_of_map_delete)
  have r1: "\<forall>k obj. (k, obj) \<in> set (objects st) \<longrightarrow> o_ownerId obj = Some sid \<longrightarrow>
            (k, obj\<lparr>o_ownerId := None\<rparr>) \<in> set (objects st')"
    unfolding o by force
  have r2: "\<forall>k obj. (k, obj) \<in> set (objects st) \<longrightarrow> o_ownerId obj \<noteq> Some sid \<longrightarrow>
            (k, obj) \<in> set (objects st')"
    unfolding o by force
  have rr: "\<forall>r. r \<in> connections st' \<longrightarrow> received st' ems r =
              map (\<lambda>(k, obj). Object_update (JStr (o_id obj)) (o_x obj) (o_y obj) None)
                (filter (\<lambda>(k, obj). o_ownerId obj = Some sid) (objects st))
              @ [User_left sid]"
  proof (intro allI impI)
    fix r assume r: "r \<in> connections st'"
    then have "r \<noteq> sid" using c by simp
    then show "received st' ems r =
              map (\<lambda>(k, obj). Object_update (JStr (o_id obj)) (o_x obj) (o_y obj) None)
                (filter (\<lambda>(k, obj). o_ownerId obj = Some sid) (objects st))
              @ [User_left sid]"
      using r unfolding e received_append
      by (simp add: received_updates received_broadcast_emit)
  qed
  have "sid \<notin> connections st'" using c by simp
  then have rs: "received st' ems sid = []"
    unfolding e received_append by (simp add: received_updates_absent received_broadcast_emit)
  show ?thesis unfolding d fst_conv snd_conv using u m c o r1 r2 e rr rs by (intro conjI)
qed

theorem disconnect_releases_witness:
  "reachable state_A_owns \<and> ''A'' \<in> connections state_A_owns \<and>
   connections (fst (disconnect ''A'' state_A_owns)) = {''B''} \<and>
   received (fst (disconnect ''A'' state_A_owns)) (snd (disconnect ''A'' state_A_owns)) ''B'' =
     [Object_update (JStr ''obj-1'') (JNum 200) (JNum 200) None, User_left ''A''] \<and>
   received (fst (disconnect ''A'' state_A_owns)) (snd (disconnect ''A'' state_A_owns)) ''A'' = []"
proof -
  have a: "''A'' \<in> connections state_A_owns" by (simp add: connections_state_A_owns)
  note t = disconnect_releases[OF reachable_state_A_owns a]
  have c: "connections (fst (disconnect ''A'' state_A_owns)) = {''B''}"
    using t[THEN conjunct2, THEN conjunct2, THEN conjunct1]
    by (auto simp: connections_state_A_owns)
  then have b: "''B'' \<in> connections (fst (disconnect ''A'' state_A_owns))" by simp
  have r: "received (fst (disconnect ''A'' state_A_owns)) (snd (disconnect ''A'' state_A_owns)) ''B'' =
     [Object_update (JStr ''obj-1'') (JNum 200) (JNum 200) None, User_left ''A'']"
    using t[THEN conjunct2, THEN conjunct2, THEN conjunct2, THEN conjunct2, THEN conjunct2,
      THEN conjunct2, THEN conjunct2, THEN conjunct1, rule_format, OF b]
    by (simp add: state_A_owns_eq)
  have s: "received (fst (disconnect ''A'' state_A_owns)) (snd (disconnect ''A'' state_A_owns)) ''A'' = []"
    using t[THEN conjunct2, THEN conjunct2, THEN conjunct2, THEN conjunct2, THEN conjunct2,
      THEN conjunct2, THEN conjunct2, THEN conjunct2] .
  show ?thesis using reachable_state_A_owns a c r s by (intro conjI)
qed

section \<open>Cursor moves\<close>

text \<open>
  Claim C5. A connection sends a \<^verbatim>\<open>cursor_move\<close> that passes the validation. Then its record
  in \<^verbatim>\<open>users\<close> takes the new position (and the time of the update), every other record and
  all objects stay as they are, and one \<^verbatim>\<open>cursor_update\<close> is emitted, with the position,
  the timestamp and the sequence number of the payload and the name and colour of the
  record. Every other connection receives it; the sender receives nothing.
\<close>

theorem cursor_move_relayed:
  assumes "isValidCursorUpdate data = Inr True" and "sid \<in> connections st"
  shows "\<exists>u st' ems. map_of (users st) sid = Some u \<and>
           cursor_move sid data now st = Inr (st', ems) \<and>
           ems =
             [(Broadcast_emit sid,
                Cursor_update sid (js_read data ''x'') (js_read data ''y'') (js_read data ''ts'')
                  (js_read data ''seq'') (u_name u) (u_color u))] \<and>
           map_of (users st') sid =
             Some (u\<lparr>u_x := js_read data ''x'', u_y := js_read data ''y'', u_lastUpdate := now\<rparr>) \<and>
           (\<forall>k. k \<noteq> sid \<longrightarrow> map_of (users st') k = map_of (users st) k) \<and>
           objects st' = objects st \<and>
           connections st' = connections st \<and>
           (\<forall>r. r \<in> connections st \<longrightarrow> r \<noteq> sid \<longrightarrow>
              received st' ems r =
                [Cursor_update sid (js_read data ''x'') (js_read data ''y'') (js_read data ''ts'')
                  (js_read data ''seq'') (u_name u) (u_color u)]) \<and>
           received st' ems sid = []"
proof -
  from connected_lookup[OF assms(2)] obtain u where u: "map_of (users st) sid = Some u" ..
  define st' where "st' = st\<lparr>users := map_set sid
               (u\<lparr>u_x := js_read data ''x'', u_y := js_read data ''y'', u_lastUpdate := now\<rparr>)
               (users st)\<rparr>"
  define ems where "ems = [(Broadcast_emit sid,
          Cursor_update sid (js_read data ''x'') (js_read data ''y'') (js_read data ''ts'')
            (js_read data ''seq'') (u_name u) (u_color u))]"
  have p: "cursor_move sid data now st = Inr (st', ems)"
    using assms(1) u by (simp add: cursor_move_def st'_def ems_def)
  have c: "connections st' = connections st"
    using assms(2) by (simp add: st'_def connections_def connected_map_set insert_absorb)
  have "map_of (users st) sid = Some u \<and>
           cursor_move sid data now st = Inr (st', ems) \<and>
           ems =
             [(Broadcast_emit sid,
                Cursor_update sid (js_read data ''x'') (js_read data ''y'') (js_read data ''ts'')
                  (js_read data ''seq'') (u_name u) (u_color u))] \<and>
           map_of (users st') sid =
             Some (u\<lparr>u_x := js_read data ''x'', u_y := js_read data ''y'', u_lastUpdate := now\<rparr>) \<and>
           (\<forall>k. k \<noteq> sid \<longrightarrow> map_of (users st') k = map_of (users st) k) \<and>
           objects st' = objects st \<and>
           connections st' = connections st \<and>
           (\<forall>r. r \<in> connections st \<longrightarrow> r \<noteq> sid \<longrightarrow>
              received st' ems r =
                [Cursor_update sid (js_read data ''x'') (js_read data ''y'') (js_read data ''ts'')
                  (js_read data ''seq'') (u_name u) (u_color u)]) \<and>
           received st' ems sid = []"
    using u p c by (simp add: received_def) (simp add: st'_def ems_def map_of_map_set)
  then show ?thesis by blast
qed

theorem cursor_move_relayed_witness:
  "isValidCursorUpdate
     (JObj [(''x'', JNum 100), (''y'', JNum 200), (''ts'', JNum 5), (''seq'', JNum 1)]) = Inr True \<and>
   ''A'' \<in> connections state_AB \<and>
   (\<exists>st' ems.
      cursor_move ''A''
        (JObj [(''x'', JNum 100), (''y'', JNum 200), (''ts'', JNum 5), (''seq'', JNum 1)])
        7 state_AB = Inr (st', ems) \<and>
      received st' ems ''B'' =
        [Cursor_update ''A'' (JNum 100) (JNum 200) (JNum 5) (JNum 1) (JStr ''User A'') ''#FF6B6B''] \<and>
      received st' ems ''A'' = [])"
proof -
  let ?d = "JObj [(''x'', JNum 100), (''y'', JNum 200), (''ts'', JNum 5), (''seq'', JNum 1)]"
  have v: "isValidCursorUpdate ?d = Inr True"
    by (simp add: isValidCursorUpdate_def js_read_def js_get_def)
  have a: "''A'' \<in> connections state_AB" by (simp add: connections_state_AB)
  have b: "''B'' \<in> connections state_AB" by (simp add: connections_state_AB)
  have ne: "''B'' \<noteq> ''A''" by simp
  from cursor_move_relayed[OF v a, of 7] obtain u st' ems where
    l: "map_of (users state_AB) ''A'' = Some u" and
    p: "cursor_move ''A'' ?d 7 state_AB = Inr (st', ems)" and
    r: "\<forall>r. r \<in> connections state_AB \<longrightarrow> r \<noteq> ''A'' \<longrightarrow>
          received st' ems r =
            [Cursor_update ''A'' (js_read ?d ''x'') (js_read ?d ''y'') (js_read ?d ''ts'')
               (js_read ?d ''seq'') (u_name u) (u_color u)]" and
    s: "received st' ems ''A'' = []"
    by (elim exE conjE)
  have "u = \<lparr>u_id = ''A'', u_name = JStr ''User A'', u_x = JNum 0, u_y = JNum 0,
          u_color = ''#FF6B6B'', u_lastUpdate = 0\<rparr>"
    using l by (simp add: state_AB_eq)
  then have "received st' ems ''B'' =
     [Cursor_update ''A'' (JNum 100) (JNum 200) (JNum 5) (JNum 1) (JStr ''User A'') ''#FF6B6B'']"
    using r[rule_format, OF b ne] by (simp add: js_read_def js_get_def)
  then have "\<exists>st' ems.
      cursor_move ''A'' ?d 7 state_AB = Inr (st', ems) \<and>
      received st' ems ''B'' =
        [Cursor_update ''A'' (JNum 100) (JNum 200) (JNum 5) (JNum 1) (JStr ''User A'') ''#FF6B6B''] \<and>
      received st' ems ''A'' = []"
    using p s by blast
  then show ?thesis using v a by (intro conjI)
qed

section \<open>Validation of cursor updates\<close>

lemma typeof_number: "(typeof v = ''number'') = is_number v"
  by (cases v) simp_all

lemma valid_iff:
  "\<not> nullish data \<Longrightarrow> isValidCursorUpdate data = Inr (\<not> spec_rejects (fields_of data))"
proof -
  assume n: "\<not> nullish data"
  have x: "num_ge v 0 \<and> num_le v 10000 \<longleftrightarrow> is_number v \<and> \<not> outside_rectangle v" for v
    by (cases v) auto
  have "(typeof (js_read data ''x'') = ''number'' \<and>
         typeof (js_read data ''y'') = ''number'' \<and>
         typeof (js_read data ''ts'') = ''number'' \<and>
         typeof (js_read data ''seq'') = ''number'' \<and>
         num_ge (js_read data ''x'') 0 \<and>
         num_le (js_read data ''x'') 10000 \<and>
         num_ge (js_read data ''y'') 0 \<and>
         num_le (js_read data ''y'') 10000) = (\<not> spec_rejects (fields_of data))"
    unfolding spec_rejects_def typeof_number js_read_def
    using x[of "js_get (fields_of data) ''x''"] x[of "js_get (fields_of data) ''y''"] by blast
  then show ?thesis using n by (simp add: isValidCursorUpdate_def)
qed

text \<open>
  On every payload that is not null or undefined the validation does what the
  specification says: it returns false exactly on the grounds of rejection, it rejects
  \<open>x = -1\<close> and \<open>x = 10001\<close> and accepts \<open>x = 0\<close> and \<open>x = 10000\<close>, and a rejected
  \<^verbatim>\<open>cursor_move\<close> leaves the state as it is and emits nothing.
\<close>

lemma validation_of_values:
  assumes "\<not> nullish data"
  shows "(isValidCursorUpdate data = Inr False) = spec_rejects (fields_of data)"
    and "(isValidCursorUpdate data = Inr True) = (\<not> spec_rejects (fields_of data))"
    and "js_read data ''x'' = JNum (- 1) \<Longrightarrow> isValidCursorUpdate data = Inr False"
    and "js_read data ''x'' = JNum 10001 \<Longrightarrow> isValidCursorUpdate data = Inr False"
    and "isValidCursorUpdate data = Inr False \<Longrightarrow> cursor_move sid data now st = Inr (st, [])"
proof -
  show "(isValidCursorUpdate data = Inr False) = spec_rejects (fields_of data)"
    and "(isValidCursorUpdate data = Inr True) = (\<not> spec_rejects (fields_of data))"
    using assms by (simp_all add: valid_iff)
  show "isValidCursorUpdate data = Inr False" if "js_read data ''x'' = JNum (- 1)"
    using that assms by (simp add: isValidCursorUpdate_def)
  show "isValidCursorUpdate data = Inr False" if "js_read data ''x'' = JNum 10001"
    using that assms by (simp add: isValidCursorUpdate_def)
  show "cursor_move sid data now st = Inr (st, [])" if "isValidCursorUpdate data = Inr False"
    using that by (simp add: cursor_move_def)
qed

lemma validation_at_the_boundary:
  assumes "0 \<le> y" and "y \<le> 10000"
  shows "isValidCursorUpdate (JObj (cursor_payload 0 y ts seq)) = Inr True"
    and "isValidCursorUpdate (JObj (cursor_payload 10000 y ts seq)) = Inr True"
    and "isValidCursorUpdate (JObj (cursor_payload (- 1) y ts seq)) = Inr False"
    and "isValidCursorUpdate (JObj (cursor_payload 10001 y ts seq)) = Inr False"
  using assms
  by (simp_all add: isValidCursorUpdate_def cursor_payload_def js_read_def js_get_def)

text \<open>
  Claim C6. The validation is to return false when a field is missing, and a rejection is
  to change nothing and to pass silently. A \<^verbatim>\<open>cursor_move\<close> that a client emits with no
  payload, or with null, has every field missing; there \<^verbatim>\<open>isValidCursorUpdate\<close> does not
  return false: reading \<^verbatim>\<open>data.x\<close> throws a TypeError, and the handler, which does not
  catch it, throws with it instead of returning. On every other payload the validation is
  as the claim says (the two lemmas above).
\<close>

theorem validation_throws_without_payload:
  "isValidCursorUpdate JUndefined = Inl TypeError \<and>
   isValidCursorUpdate JNull = Inl TypeError \<and>
   cursor_move ''A'' JUndefined 7 state_AB = Inl TypeError \<and>
   cursor_move ''A'' JNull 7 state_AB = Inl TypeError \<and>
   handle (Cursor_move ''A'' JNull 7) state_AB = Inl TypeError"
  by (simp add: isValidCursorUpdate_def cursor_move_def)

section \<open>The throttle\<close>

lemma throttle_dropped:
  "now - lastCall < limit \<Longrightarrow> throttle func limit args now (lastCall, s) = (lastCall, s)"
  by (simp add: throttle_def)

lemma throttle_executed:
  "limit \<le> now - lastCall \<Longrightarrow> throttle func limit args now (lastCall, s) = (now, func args s)"
  by (simp add: throttle_def)

lemma calls_all_dropped:
  "\<forall>c \<in> set rest. fst c - lastCall < 50 \<Longrightarrow> calls rest (lastCall, s) = (lastCall, s)"
proof (induction rest)
  case Nil
  then show ?case by simp
next
  case (Cons c rest)
  obtain now a where c: "c = (now, a)" by (cases c)
  have "now - lastCall < 50" using Cons.prems c by simp
  then have "throttledSendCursor a now (lastCall, s) = (lastCall, s)"
    unfolding throttledSendCursor_def by (rule throttle_dropped)
  then show ?case using Cons c by simp
qed

text \<open>
  Claim C4, amended. A burst of calls to \<^verbatim>\<open>throttledSendCursor\<close> in which every later call
  comes less than 50 ms after the first, and whose first call comes at least 50 ms after
  the last call that was executed (\<^verbatim>\<open>lastCall\<close>): the burst has the effect of its first
  call alone. The first call is executed (with a socket, one \<^verbatim>\<open>cursor_move\<close> is emitted and
  the sequence number advances), and each later call leaves the state as it is: it is
  dropped, and the state has no place where a call could wait.
\<close>

theorem burst_sends_first_only:
  assumes "50 \<le> now - lastCall" and "\<forall>c \<in> set rest. fst c - now < 50"
  shows "calls ((now, a) # rest) (lastCall, s) = (now, sendCursor a s) \<and>
         (socket s \<longrightarrow>
            emitted (snd (calls ((now, a) # rest) (lastCall, s))) =
              emitted s @
                [[(''x'', JNum (math_round (fst a))), (''y'', JNum (math_round (fst (snd a)))),
                  (''ts'', JNum (snd (snd a))), (''seq'', JNum (sequenceRef s))]])"
proof -
  have "throttledSendCursor a now (lastCall, s) = (now, sendCursor a s)"
    unfolding throttledSendCursor_def using assms(1) by (rule throttle_executed)
  then have c: "calls ((now, a) # rest) (lastCall, s) = (now, sendCursor a s)"
    using calls_all_dropped[OF assms(2), of "sendCursor a s"] by simp
  show ?thesis unfolding c by (cases a) (simp add: sendCursor_def)
qed

theorem burst_sends_first_only_witness:
  "(50::real) \<le> 1000 - fst fresh_sender \<and>
   calls [(1000, 10, 20, 1000), (1010, 11, 21, 1010), (1049, 12, 22, 1049)] fresh_sender =
     (1000, \<lparr>socket = True, sequenceRef = 1,
        emitted = [[(''x'', JNum 10), (''y'', JNum 20), (''ts'', JNum 1000), (''seq'', JNum 0)]]\<rparr>)"
proof -
  have h1: "(50::real) \<le> 1000 - 0" by simp
  have h2: "\<forall>c \<in> set [(1010::real, 11::real, 21::real, 1010::real), (1049, 12, 22, 1049)].
               fst c - 1000 < 50" by simp
  have r: "math_round 10 = 10" "math_round 20 = 20" by (simp_all add: math_round_def)
  from burst_sends_first_only[OF h1 h2, of "(10, 20, 1000)" "\<lparr>socket = True, sequenceRef = 0, emitted = []\<rparr>"]
  show ?thesis by (simp add: fresh_sender_def sendCursor_def r)
qed

text \<open>
  A burst that starts less than 50 ms after an executed call: the closure is new, a call at
  1000 ms is executed, and of the two calls at 1040 ms and 1045 ms, 5 ms apart, neither is
  executed, the first no more than the second.
\<close>

theorem burst_after_recent_call_sends_nothing:
  "fst (calls [(1000, 10, 20, 1000)] fresh_sender) = 1000 \<and>
   \<bar>(1045::real) - 1040\<bar> < 50 \<and>
   calls [(1040, 11, 21, 1040), (1045, 12, 22, 1045)] (calls [(1000, 10, 20, 1000)] fresh_sender) =
     calls [(1000, 10, 20, 1000)] fresh_sender \<and>
   emitted (snd (calls [(1040, 11, 21, 1040), (1045, 12, 22, 1045)]
                   (calls [(1000, 10, 20, 1000)] fresh_sender))) =
     [[(''x'', JNum 10), (''y'', JNum 20), (''ts'', JNum 1000), (''seq'', JNum 0)]]"
  by (simp add: fresh_sender_def throttledSendCursor_def throttle_def sendCursor_def math_round_def)

section \<open>Receiving a cursor update\<close>

lemma cursor_update_known:
  "cursors (d_id data) = Some c \<Longrightarrow>
   on_cursor_update data now cursors (d_id data) =
     Some (c\<lparr>prevX := rc_x c, prevY := rc_y c, targetX := d_x data, targetY := d_y data,
            lastUpdateTime := ts_or_now (d_ts data) now\<rparr>)"
  by (simp add: on_cursor_update_def)

lemma cursor_update_new:
  "cursors (d_id data) = None \<Longrightarrow>
   on_cursor_update data now cursors (d_id data) =
     Some \<lparr>rc_id = d_id data, rc_name = d_name data, rc_color = d_color data,
           rc_x = d_x data, rc_y = d_y data, targetX = d_x data, targetY = d_y data,
           prevX = d_x data, prevY = d_y data, lastUpdateTime = ts_or_now (d_ts data) now\<rparr>"
  by (simp add: on_cursor_update_def)

lemma cursor_update_others:
  "k \<noteq> d_id data \<Longrightarrow> on_cursor_update data now cursors k = cursors k"
  by (simp add: on_cursor_update_def split: option.splits)

text \<open>
  Claim C8. The listener does set \<^verbatim>\<open>prev\<close> to the displayed position and \<^verbatim>\<open>target\<close> to the
  delivered one for a cursor it knows, and both to the delivered position for a new one
  (the two lemmas above). The time it records is \<^verbatim>\<open>ts || Date.now()\<close>: the timestamp of
  the sender whenever that is not zero, and not the local time of receipt. Here the cursor
  of \<open>A\<close> is known from a \<^verbatim>\<open>user_joined\<close> at local time 4000, displayed at (100, 100); an
  update to (150, 100) with the sender's timestamp 1000 arrives at local time 5000. The
  positions are as the claim says, the recorded time is 1000, and the next frame at local
  time 5001 shows the cursor at its target already.
\<close>

theorem cursor_update_records_sender_time:
  "map_option (\<lambda>c. (prevX c, prevY c, targetX c, targetY c, lastUpdateTime c))
     (on_cursor_update
        \<lparr>d_id = ''A'', d_x = 150, d_y = 100, d_name = JStr ''User A'', d_color = ''#FF6B6B'',
           d_ts = 1000\<rparr>
        5000
        (on_user_joined ''A'' (JStr ''User A'') 100 100 ''#FF6B6B'' 4000 Map.empty) ''A'') =
     Some (100, 100, 150, 100, 1000) \<and>
   map_option (\<lambda>c. rc_x (animate_cursor 5001 c))
     (on_cursor_update
        \<lparr>d_id = ''A'', d_x = 150, d_y = 100, d_name = JStr ''User A'', d_color = ''#FF6B6B'',
           d_ts = 1000\<rparr>
        5000
        (on_user_joined ''A'' (JStr ''User A'') 100 100 ''#FF6B6B'' 4000 Map.empty) ''A'') =
     Some 150"
proof -
  have p: "min (js_div (js_sub 5001 1000) 50) 1 = 1" by code_simp
  have l: "lerp 100 150 1 = 150" by code_simp
  show ?thesis
    by (simp add: on_cursor_update_def on_user_joined_def ts_or_now_def animate_cursor_def
        INTERPOLATION_DURATION_def p l)
qed

end
